theory Spec2Isabelle
  imports Main "HOL-Library.Sublist"
begin

section \<open>Data model\<close>

text \<open>
  A \<open>time.Time\<close> is modelled by the instant it denotes: the number of nanoseconds since
  Go's zero time (January 1, year 1, 00:00:00 UTC). The location of a time value is not
  modelled, so \<open>UTC()\<close> is the identity; \<open>IsZero\<close> is comparison with 0, \<open>After\<close> and
  \<open>Equal\<close> compare instants, and \<open>Truncate(d)\<close> rounds down to a multiple of \<open>d\<close> since the
  zero time.
\<close>

type_synonym time = int

definition UTC :: "time \<Rightarrow> time" where
  "UTC t = t"

definition IsZero :: "time \<Rightarrow> bool" where
  "IsZero t \<longleftrightarrow> t = 0"

definition After :: "time \<Rightarrow> time \<Rightarrow> bool" where
  "After t u \<longleftrightarrow> u < t"

definition Truncate :: "time \<Rightarrow> int \<Rightarrow> time" where
  "Truncate t d = (if d \<le> 0 then t else t - t mod d)"

definition Hour :: int where
  "Hour = 3600 * 1000000000"

type_synonym error = string

text \<open>What makes a Go function stop without returning: the run-time panics the code can raise.\<close>

datatype go_panic = NilDereference | NilMapAssignment | TypeAssertion

text \<open>
  The assets of the open asset model, one constructor for each concrete type this repository
  inspects, each with the fields the repository reads. \<open>Key()\<close> and \<open>AssetType()\<close> are methods
  of that (external) library: where the key is not one of the fields read here it is carried as
  a field of its own (the last one), and the asset type is the library's constant for the
  concrete type. \<open>OtherAsset\<close> stands for any further concrete type, with its asset type and
  key. A \<open>netip.Prefix\<close> and a \<open>netip.Addr\<close> are modelled by their string forms. A concrete
  type and the pointer to it are not told apart: the store is taken to hand each tool the
  representation its type assertions name.
\<close>

datatype oam_asset =
    FQDN string
  | IPAddress string string
  | Netblock string string
  | AutonomousSystem int string
  | RIROrganization string string
  | AutnumRecord string string
  | ContactRecord string
  | Location string string string string string string
  | DomainRecord string
  | TLSCertificate string string
  | NetworkEndpoint string
  | SocketAddress string
  | Source string
  | EmailAddress string
  | Phone string
  | Fingerprint string
  | Organization string
  | Person string
  | URL string
  | Service string
  | OtherAsset string string

fun Key :: "oam_asset \<Rightarrow> string" where
  "Key (FQDN name) = name"
| "Key (IPAddress addr t) = addr"
| "Key (Netblock cidr t) = cidr"
| "Key (AutonomousSystem number k) = k"
| "Key (RIROrganization name k) = k"
| "Key (AutnumRecord handle k) = k"
| "Key (ContactRecord k) = k"
| "Key (Location building street city province postal k) = k"
| "Key (DomainRecord k) = k"
| "Key (TLSCertificate serial k) = k"
| "Key (NetworkEndpoint k) = k"
| "Key (SocketAddress k) = k"
| "Key (Source k) = k"
| "Key (EmailAddress k) = k"
| "Key (Phone k) = k"
| "Key (Fingerprint k) = k"
| "Key (Organization k) = k"
| "Key (Person k) = k"
| "Key (URL k) = k"
| "Key (Service k) = k"
| "Key (OtherAsset t k) = k"

fun AssetType :: "oam_asset \<Rightarrow> string" where
  "AssetType (FQDN name) = ''FQDN''"
| "AssetType (IPAddress addr t) = ''IPAddress''"
| "AssetType (Netblock cidr t) = ''Netblock''"
| "AssetType (AutonomousSystem number k) = ''AutonomousSystem''"
| "AssetType (RIROrganization name k) = ''RIROrganization''"
| "AssetType (AutnumRecord handle k) = ''AutnumRecord''"
| "AssetType (ContactRecord k) = ''ContactRecord''"
| "AssetType (Location building street city province postal k) = ''Location''"
| "AssetType (DomainRecord k) = ''DomainRecord''"
| "AssetType (TLSCertificate serial k) = ''TLSCertificate''"
| "AssetType (NetworkEndpoint k) = ''NetworkEndpoint''"
| "AssetType (SocketAddress k) = ''SocketAddress''"
| "AssetType (Source k) = ''Source''"
| "AssetType (EmailAddress k) = ''EmailAddress''"
| "AssetType (Phone k) = ''Phone''"
| "AssetType (Fingerprint k) = ''Fingerprint''"
| "AssetType (Organization k) = ''Organization''"
| "AssetType (Person k) = ''Person''"
| "AssetType (URL k) = ''URL''"
| "AssetType (Service k) = ''Service''"
| "AssetType (OtherAsset t k) = t"

text \<open>
  \<open>types.Asset\<close> and \<open>types.Relation\<close> of the store. A \<open>*types.Asset\<close> is an option (\<open>None\<close>
  is the nil pointer), and so is the \<open>Asset\<close> interface value inside. The fields \<open>ID\<close> and
  \<open>Type\<close> are named \<open>AssetID\<close> and \<open>RelType\<close> here, and the \<open>Label\<close> and \<open>Title\<close> of an edge
  \<open>EdgeLabel\<close> and \<open>EdgeTitle\<close>, to keep them apart from the fields of \<open>Node\<close>.
\<close>

record types_Asset =
  AssetID :: string
  CreatedAt :: time
  LastSeen :: time
  Asset :: "oam_asset option"

type_synonym asset_ptr = "types_Asset option"

record types_Relation =
  RelType :: string
  FromAsset :: asset_ptr
  ToAsset :: asset_ptr

text \<open>
  The queries of the store that the repository calls. The store is an external collaborator,
  so it is a parameter of every function below. A query whose error is checked at each of its
  call sites before its value is used returns a sum; \<open>FindById\<close> returns Go's pair, since
  \<open>handleNetblock\<close> and \<open>handleASN\<close> drop its error and use the value. The relation queries
  receive a dereferenced asset: at each call site the pointer has been read before.
\<close>

record AssetDB =
  FindByScope :: "oam_asset list \<Rightarrow> time \<Rightarrow> error + asset_ptr list"
  FindById :: "string \<Rightarrow> time \<Rightarrow> asset_ptr \<times> error option"
  OutgoingRelations :: "types_Asset \<Rightarrow> time \<Rightarrow> string list \<Rightarrow> error + types_Relation list"
  IncomingRelations :: "types_Asset \<Rightarrow> time \<Rightarrow> string list \<Rightarrow> error + types_Relation list"

record Edge =
  From :: int
  To :: int
  EdgeLabel :: string
  EdgeTitle :: string

record Node =
  ID :: int
  Type :: string
  Label :: string
  Title :: string

section \<open>Strings\<close>

text \<open>
  \<open>strings.ToLower\<close>, \<open>strings.TrimSpace\<close> and \<open>strings.Join\<close> on byte strings. The case
  mapping and the white space are those of ASCII; Go maps and trims the other Unicode
  letters and spaces too, which a domain name does not contain.
\<close>

definition lower_char :: "char \<Rightarrow> char" where
  "lower_char c =
     (let n = (of_char c :: nat) in if 65 \<le> n \<and> n \<le> 90 then char_of (n + 32) else c)"

definition ToLower :: "string \<Rightarrow> string" where
  "ToLower s = map lower_char s"

definition is_space :: "char \<Rightarrow> bool" where
  "is_space c \<longleftrightarrow> (let n = (of_char c :: nat) in (9 \<le> n \<and> n \<le> 13) \<or> n = 32)"

definition TrimSpace :: "string \<Rightarrow> string" where
  "TrimSpace s = rev (dropWhile is_space (rev (dropWhile is_space s)))"

fun Join :: "string list \<Rightarrow> string \<Rightarrow> string" where
  "Join [] sep = []"
| "Join [p] sep = p"
| "Join (p # q # ps) sep = p @ sep @ Join (q # ps) sep"

definition HasSuffix :: "string \<Rightarrow> string \<Rightarrow> bool" where
  "HasSuffix s suf \<longleftrightarrow> suffix suf s"

section \<open>The viz package: newNode and domainNameInScope\<close>

text \<open>
  The type switch of \<open>newNode\<close>: the label for the concrete type and whether the asset needs
  the service check; \<open>None\<close> is the \<open>return nil\<close> of the \<open>*source.Source\<close> case.
\<close>

fun node_key :: "oam_asset \<Rightarrow> string \<Rightarrow> (string \<times> bool) option" where
  "node_key (AutnumRecord handle k) key = Some (handle @ '' - '' @ key, False)"
| "node_key (ContactRecord k) key = Some (''Found->'' @ key, False)"
| "node_key (Location building street city province postal k) key =
     Some (Join [building, street, city, province, postal] '' '', False)"
| "node_key (DomainRecord k) key = Some (''WHOIS: '' @ key, False)"
| "node_key (TLSCertificate serial k) key = Some (''x509 Serial Number: '' @ serial, False)"
| "node_key (NetworkEndpoint k) key = Some (key, True)"
| "node_key (SocketAddress k) key = Some (key, True)"
| "node_key (Source k) key = None"
| "node_key asset key = Some (key, False)"

definition newNode :: "AssetDB \<Rightarrow> int \<Rightarrow> asset_ptr \<Rightarrow> time \<Rightarrow> Node option" where
  "newNode db idx a since =
     (case a of None \<Rightarrow> None | Some ar \<Rightarrow>
      (case Asset ar of None \<Rightarrow> None | Some asset \<Rightarrow>
        (let key = Key asset in
         if key = [] then None
         else
           (let atype = AssetType asset in
            if atype = ''Source'' then None
            else
              (case node_key asset key of None \<Rightarrow> None | Some (key', check) \<Rightarrow>
                (let title = atype @ '': '' @ key' in
                 if check \<and>
                    (case OutgoingRelations db ar since [''service''] of
                       Inl err \<Rightarrow> True | Inr rels \<Rightarrow> length rels = 0)
                 then None
                 else Some \<lparr>ID = idx, Type = atype, Label = key', Title = title\<rparr>))))))"

fun domainNameInScope_loop :: "string \<Rightarrow> string list \<Rightarrow> bool" where
  "domainNameInScope_loop n [] = False"
| "domainNameInScope_loop n (d # scope) =
     (let d' = ToLower d in
      if n = d' \<or> HasSuffix n (''.'' @ d') then True else domainNameInScope_loop n scope)"

definition domainNameInScope :: "string \<Rightarrow> string list \<Rightarrow> bool" where
  "domainNameInScope name scope = domainNameInScope_loop (ToLower (TrimSpace name)) scope"

section \<open>The viz package: VizData\<close>

text \<open>
  The local variables of \<open>VizData\<close> that its loops update. The slice \<open>next\<close> is the field
  \<open>next_assets\<close>. Go's \<open>int\<close> is modelled by \<open>int\<close>: the index counts appended nodes, and
  a node list of \<open>2^63\<close> elements does not fit in memory.
\<close>

record viz_state =
  idx :: int
  nodes :: "Node list"
  edges :: "Edge list"
  nodeToIdx :: "string \<rightharpoonup> int"
  next_assets :: "asset_ptr list"

text \<open>
  The switch over the asset type (lines 86 to 133): the flags \<open>in\<close> and \<open>out\<close> and the
  relation labels \<open>inRels\<close> and \<open>outRels\<close>, returned as \<open>(in, inRels, out, outRels)\<close>.
\<close>

definition directions ::
  "string list \<Rightarrow> string \<Rightarrow> string \<Rightarrow> bool \<times> string list \<times> bool \<times> string list" where
  "directions domains label atype =
     (if atype = ''FQDN'' then (domainNameInScope label domains, [], True, [])
      else if atype = ''IPAddress'' then (True, [''contains''], True, [])
      else if atype = ''Netblock'' then (True, [''announces''], False, [])
      else if atype = ''AutonomousSystem'' then (False, [], True, [''registration''])
      else if atype = ''AutnumRecord'' then (False, [], True, [])
      else if atype = ''SocketAddress'' then (False, [], True, [])
      else if atype = ''NetworkEndpoint'' then (False, [], True, [])
      else if atype = ''ContactRecord'' then (False, [], True, [])
      else if atype = ''EmailAddress'' then (False, [], True, [])
      else if atype = ''Location'' then (False, [], True, [])
      else if atype = ''Phone'' then (False, [], True, [])
      else if atype = ''Fingerprint'' then (False, [], False, [])
      else if atype = ''Organization'' then (False, [], True, [])
      else if atype = ''Person'' then (False, [], True, [])
      else if atype = ''TLSCertificate'' then (False, [], True, [])
      else if atype = ''URL'' then (False, [], True, [])
      else if atype = ''DomainRecord'' then (False, [], True, [])
      else if atype = ''Source'' then (False, [], False, [])
      else if atype = ''Service'' then (False, [], True, [])
      else (False, [], False, []))"

text \<open>The body of the loop over the outgoing relations (lines 139 to 161).\<close>

definition out_rel ::
  "AssetDB \<Rightarrow> time \<Rightarrow> int \<Rightarrow> types_Relation \<Rightarrow> viz_state \<Rightarrow> go_panic + viz_state" where
  "out_rel db since fromID rel st =
     (case ToAsset rel of None \<Rightarrow> Inl NilDereference | Some ta \<Rightarrow>
      (case FindById db (AssetID ta) since of
         (to, Some err) \<Rightarrow> Inr st
       | (to, None) \<Rightarrow>
          (let toID = idx st in
           case newNode db toID to since of None \<Rightarrow> Inr st | Some n2 \<Rightarrow>
             (let (toID', st') =
                (case nodeToIdx st (Label n2) of
                   None \<Rightarrow>
                     (toID, st\<lparr>idx := idx st + 1,
                               nodeToIdx := (nodeToIdx st)(Label n2 \<mapsto> toID),
                               nodes := nodes st @ [n2],
                               next_assets := next_assets st @ [to]\<rparr>)
                 | Some i \<Rightarrow> (i, st))
              in Inr (st'\<lparr>edges := edges st' @
                    [\<lparr>From = fromID, To = toID',
                      EdgeLabel = RelType rel, EdgeTitle = RelType rel\<rparr>]\<rparr>)))))"

fun out_loop ::
  "AssetDB \<Rightarrow> time \<Rightarrow> int \<Rightarrow> types_Relation list \<Rightarrow> viz_state \<Rightarrow> go_panic + viz_state" where
  "out_loop db since fromID [] st = Inr st"
| "out_loop db since fromID (rel # rels) st =
     (case out_rel db since fromID rel st of
        Inl p \<Rightarrow> Inl p
      | Inr st' \<Rightarrow> out_loop db since fromID rels st')"

text \<open>The body of the loop over the incoming relations (lines 169 to 193).\<close>

definition in_rel ::
  "AssetDB \<Rightarrow> time \<Rightarrow> int \<Rightarrow> types_Relation \<Rightarrow> viz_state \<Rightarrow> go_panic + viz_state" where
  "in_rel db since toID rel st =
     (case FromAsset rel of None \<Rightarrow> Inl NilDereference | Some fa \<Rightarrow>
      (case FindById db (AssetID fa) since of
         (from, Some err) \<Rightarrow> Inr st
       | (from, None) \<Rightarrow>
          (let fromID = idx st in
           case newNode db fromID from since of None \<Rightarrow> Inr st | Some n2 \<Rightarrow>
             (let (fromID', st') =
                (case nodeToIdx st (Label n2) of
                   None \<Rightarrow>
                     (fromID, st\<lparr>idx := idx st + 1,
                                 nodeToIdx := (nodeToIdx st)(Label n2 \<mapsto> fromID),
                                 nodes := nodes st @ [n2],
                                 next_assets :=
                                   (if RelType rel \<noteq> ''ptr_record''
                                    then next_assets st @ [from] else next_assets st)\<rparr>)
                 | Some i \<Rightarrow> (i, st))
              in Inr (st'\<lparr>edges := edges st' @
                    [\<lparr>From = fromID', To = toID,
                      EdgeLabel = RelType rel, EdgeTitle = RelType rel\<rparr>]\<rparr>)))))"

fun in_loop ::
  "AssetDB \<Rightarrow> time \<Rightarrow> int \<Rightarrow> types_Relation list \<Rightarrow> viz_state \<Rightarrow> go_panic + viz_state" where
  "in_loop db since toID [] st = Inr st"
| "in_loop db since toID (rel # rels) st =
     (case in_rel db since toID rel st of
        Inl p \<Rightarrow> Inl p
      | Inr st' \<Rightarrow> in_loop db since toID rels st')"

text \<open>The two guarded blocks after the switch (lines 135 to 164 and 165 to 196).\<close>

definition follow_out ::
  "AssetDB \<Rightarrow> time \<Rightarrow> types_Asset \<Rightarrow> int \<Rightarrow> bool \<Rightarrow> string list \<Rightarrow> viz_state
     \<Rightarrow> go_panic + viz_state" where
  "follow_out db since ar ident out outRels st =
     (if out then
        (case OutgoingRelations db ar since outRels of
           Inl err \<Rightarrow> Inr st
         | Inr rels \<Rightarrow> if length rels > 0 then out_loop db since ident rels st else Inr st)
      else Inr st)"

definition follow_in ::
  "AssetDB \<Rightarrow> time \<Rightarrow> types_Asset \<Rightarrow> int \<Rightarrow> bool \<Rightarrow> string list \<Rightarrow> viz_state
     \<Rightarrow> go_panic + viz_state" where
  "follow_in db since ar ident inb inRels st =
     (if inb then
        (case IncomingRelations db ar since inRels of
           Inl err \<Rightarrow> Inr st
         | Inr rels \<Rightarrow> if length rels > 0 then in_loop db since ident rels st else Inr st)
      else Inr st)"

text \<open>
  The body of the loop over the assets of one level (lines 72 to 196). When \<open>newNode\<close> has
  returned a node, neither the record nor its asset is nil; the two inner cases give the
  model the record and the asset, and their \<open>None\<close> branches are never taken.
\<close>

definition visit ::
  "AssetDB \<Rightarrow> string list \<Rightarrow> time \<Rightarrow> asset_ptr \<Rightarrow> viz_state \<Rightarrow> go_panic + viz_state" where
  "visit db domains since a st =
     (case newNode db (idx st) a since of None \<Rightarrow> Inr st | Some n \<Rightarrow>
      (case a of None \<Rightarrow> Inr st | Some ar \<Rightarrow>
       (case Asset ar of None \<Rightarrow> Inr st | Some asset \<Rightarrow>
         (let (ident, st1) =
            (case nodeToIdx st (Label n) of
               None \<Rightarrow>
                 (idx st, st\<lparr>idx := idx st + 1,
                            nodeToIdx := (nodeToIdx st)(Label n \<mapsto> idx st),
                            nodes := nodes st @ [n]\<rparr>)
             | Some nid \<Rightarrow> (nid, st));
              (inb, inRels, out, outRels) = directions domains (Label n) (AssetType asset)
          in case follow_out db since ar ident out outRels st1 of
               Inl p \<Rightarrow> Inl p
             | Inr st2 \<Rightarrow> follow_in db since ar ident inb inRels st2))))"

fun visit_all ::
  "AssetDB \<Rightarrow> string list \<Rightarrow> time \<Rightarrow> asset_ptr list \<Rightarrow> viz_state \<Rightarrow> go_panic + viz_state" where
  "visit_all db domains since [] st = Inr st"
| "visit_all db domains since (a # assets) st =
     (case visit db domains since a st of
        Inl p \<Rightarrow> Inl p
      | Inr st' \<Rightarrow> visit_all db domains since assets st')"

text \<open>
  The outer \<open>for\<close> loop (lines 62 to 198). Nothing in the code bounds the number of levels:
  a store that keeps resolving to records with fresh labels keeps the loop going, so the
  loop is a partial function and \<open>None\<close> stands for a call that does not return.
\<close>

partial_function (option) viz_loop ::
  "AssetDB \<Rightarrow> string list \<Rightarrow> time \<Rightarrow> viz_state \<Rightarrow> (go_panic + viz_state) option" where
  "viz_loop db domains since st =
     (if length (next_assets st) = 0 then Some (Inr st)
      else
        (case visit_all db domains since (next_assets st) (st\<lparr>next_assets := []\<rparr>) of
           Inl p \<Rightarrow> Some (Inl p)
         | Inr st' \<Rightarrow> viz_loop db domains since st'))"

declare viz_loop.simps [code]

definition VizData ::
  "string list \<Rightarrow> time \<Rightarrow> AssetDB \<Rightarrow> (go_panic + Node list \<times> Edge list) option" where
  "VizData domains since g =
     (if length domains = 0 then Some (Inr ([], []))
      else
        (let fqdns = map FQDN domains;
             since' = (if \<not> IsZero since then UTC since else since)
         in case FindByScope g fqdns since' of
              Inl err \<Rightarrow> Some (Inr ([], []))
            | Inr nxt \<Rightarrow>
               map_option (map_sum id (\<lambda>st. (nodes st, edges st)))
                 (viz_loop g domains since'
                    \<lparr>idx = 0, nodes = [], edges = [], nodeToIdx = Map.empty,
                     next_assets = nxt\<rparr>)))"

text \<open>
  The predicates in which the properties of the traversal are stated. \<open>tbl_ok\<close> relates the
  index counter, the node list and the label table: the counter is the number of nodes, the
  node at position \<open>k\<close> has the identifier \<open>k\<close>, the table maps its label to \<open>k\<close>, no label
  occurs twice, and the table holds the labels of the nodes and no other. \<open>edges_ok\<close> says
  that both ends of every edge are identifiers handed out so far. \<open>grows\<close> relates an earlier
  state to a later one: nodes and edges are only appended, and the table is only extended.
\<close>

definition tbl_ok :: "int \<Rightarrow> Node list \<Rightarrow> (string \<rightharpoonup> int) \<Rightarrow> bool" where
  "tbl_ok i ns m \<longleftrightarrow>
     i = int (length ns) \<and>
     (\<forall>k < length ns. ID (ns ! k) = int k \<and> m (Label (ns ! k)) = Some (int k)) \<and>
     distinct (map Label ns) \<and>
     dom m = Label ` set ns"

definition edges_ok :: "int \<Rightarrow> Edge list \<Rightarrow> bool" where
  "edges_ok i es \<longleftrightarrow> (\<forall>e \<in> set es. 0 \<le> From e \<and> From e < i \<and> 0 \<le> To e \<and> To e < i)"

definition viz_inv :: "viz_state \<Rightarrow> bool" where
  "viz_inv st \<longleftrightarrow> tbl_ok (idx st) (nodes st) (nodeToIdx st) \<and> edges_ok (idx st) (edges st)"

definition grows :: "viz_state \<Rightarrow> viz_state \<Rightarrow> bool" where
  "grows st st' \<longleftrightarrow>
     prefix (nodes st) (nodes st') \<and> prefix (edges st) (edges st') \<and>
     nodeToIdx st \<subseteq>\<^sub>m nodeToIdx st' \<and> idx st \<le> idx st'"


section \<open>Type assertions\<close>

text \<open>
  The comma-ok type assertions of the two commands: the field the caller goes on to read, or
  \<open>None\<close> when the interface value is nil or holds another concrete type.
\<close>

fun assert_FQDN :: "oam_asset option \<Rightarrow> string option" where
  "assert_FQDN (Some (FQDN name)) = Some name"
| "assert_FQDN other = None"


fun assert_Netblock :: "oam_asset option \<Rightarrow> string option" where
  "assert_Netblock (Some (Netblock cidr t)) = Some cidr"
| "assert_Netblock other = None"

fun assert_AutonomousSystem :: "oam_asset option \<Rightarrow> int option" where
  "assert_AutonomousSystem (Some (AutonomousSystem number k)) = Some number"
| "assert_AutonomousSystem other = None"

fun assert_RIROrganization :: "oam_asset option \<Rightarrow> string option" where
  "assert_RIROrganization (Some (RIROrganization name k)) = Some name"
| "assert_RIROrganization other = None"

section \<open>oam_track: getNewNames\<close>

text \<open>
  Modelled from the spec: the string set of the external package \<open>stringset\<close> is a
  deduplicated set of names whose order is not significant. It is modelled by the list of its
  elements in the order of their insertion; \<open>Slice\<close> returns that list.
\<close>

type_synonym stringset = "string list"

definition stringset_New :: stringset where
  "stringset_New = []"

definition Has :: "stringset \<Rightarrow> string \<Rightarrow> bool" where
  "Has res n \<longleftrightarrow> n \<in> set res"

definition Insert :: "stringset \<Rightarrow> string \<Rightarrow> stringset" where
  "Insert res n = (if n \<in> set res then res else res @ [n])"

definition Slice :: "stringset \<Rightarrow> string list" where
  "Slice res = res"

definition Equal :: "time \<Rightarrow> time \<Rightarrow> bool" where
  "Equal t u \<longleftrightarrow> t = u"

text \<open>The loop that finds the latest \<open>LastSeen\<close> of the FQDN records (lines 183 to 187).\<close>

fun latest_loop :: "asset_ptr list \<Rightarrow> time \<Rightarrow> go_panic + time" where
  "latest_loop [] latest = Inr latest"
| "latest_loop (a # assets) latest =
     (case a of None \<Rightarrow> Inl NilDereference | Some ar \<Rightarrow>
        if assert_FQDN (Asset ar) \<noteq> None \<and> After (LastSeen ar) latest
        then latest_loop assets (LastSeen ar)
        else latest_loop assets latest)"

text \<open>
  The block that replaces a zero \<open>since\<close> (lines 180 to 190); \<open>latest\<close> starts as the zero
  time.
\<close>

definition derive_since :: "asset_ptr list \<Rightarrow> time \<Rightarrow> go_panic + time" where
  "derive_since assets since =
     (if IsZero since then
        (case latest_loop assets 0 of
           Inl p \<Rightarrow> Inl p
         | Inr latest \<Rightarrow> Inr (Truncate latest (24 * Hour)))
      else Inr since)"

text \<open>The loop that collects the names (lines 195 to 201).\<close>

fun names_loop :: "asset_ptr list \<Rightarrow> time \<Rightarrow> stringset \<Rightarrow> go_panic + stringset" where
  "names_loop [] since res = Inr res"
| "names_loop (a # assets) since res =
     (case a of None \<Rightarrow> Inl NilDereference | Some ar \<Rightarrow>
       (case assert_FQDN (Asset ar) of
          None \<Rightarrow> names_loop assets since res
        | Some name \<Rightarrow>
            if \<not> Has res name \<and>
               (Equal (CreatedAt ar) since \<or> After (CreatedAt ar) since) \<and>
               (Equal (LastSeen ar) since \<or> After (LastSeen ar) since)
            then names_loop assets since (Insert res name)
            else names_loop assets since res))"

definition getNewNames :: "string list \<Rightarrow> time \<Rightarrow> AssetDB \<Rightarrow> go_panic + string list" where
  "getNewNames domains since g =
     (if length domains = 0 then Inr []
      else
        (let fqdns = map FQDN domains;
             since1 = (if \<not> IsZero since then UTC since else since)
         in case FindByScope g fqdns since1 of
              Inl err \<Rightarrow> Inr []
            | Inr assets \<Rightarrow>
               (case derive_since assets since1 of
                  Inl p \<Rightarrow> Inl p
                | Inr since2 \<Rightarrow>
                   (case names_loop assets since2 stringset_New of
                      Inl p \<Rightarrow> Inl p
                    | Inr res \<Rightarrow> Inr (Slice res)))))"

section \<open>oam_subs: handleNetblock and handleASN\<close>

text \<open>
  \<open>format.ASNInfo\<close>, and the table \<open>asnData\<close> from ASN numbers to it. The table and the
  \<open>CIDRs\<close> of an entry are Go maps. A nil table is \<open>None\<close>: reading it finds nothing and
  writing to it panics. The entries are held by value: \<open>showEventData\<close> starts from an empty
  table, \<open>handleASN\<close> alone adds entries, each a fresh object with a fresh \<open>CIDRs\<close> map, so
  no two keys share an entry; and when \<open>handleASN\<close> returns an error after it has updated an
  entry in place, it returns the nil table and its caller drops the old one. A count is
  modelled by \<open>int\<close>.
\<close>

record ASNInfo =
  RIRName :: string
  CIDRs :: "string \<rightharpoonup> int"

type_synonym asn_table = "(int \<rightharpoonup> ASNInfo) option"



text \<open>
  The loop over the \<open>managed_by\<close> relations (lines 368 to 387): a panic, or the error of
  \<open>FindById\<close>, or the entry after the loop.
\<close>

fun rir_loop ::
  "AssetDB \<Rightarrow> int \<Rightarrow> types_Relation list \<Rightarrow> ASNInfo \<Rightarrow> go_panic + (error + ASNInfo)" where
  "rir_loop db number [] asnInfo = Inr (Inr asnInfo)"
| "rir_loop db number (rel # rels) asnInfo =
     (case ToAsset rel of None \<Rightarrow> Inl NilDereference | Some ta \<Rightarrow>
       (case FindById db (AssetID ta) 0 of
          (rirAsset, Some err) \<Rightarrow> Inr (Inl err)
        | (rirAsset, None) \<Rightarrow>
           (case rirAsset of None \<Rightarrow> Inl NilDereference | Some ra \<Rightarrow>
             (case assert_RIROrganization (Asset ra) of
                None \<Rightarrow> rir_loop db number rels asnInfo
              | Some name \<Rightarrow>
                 (let asnInfo' = asnInfo\<lparr>RIRName := name\<rparr>
                  in if number = 0 then Inr (Inr asnInfo')
                     else rir_loop db number rels asnInfo')))))"

text \<open>
  The loop of \<open>handleASN\<close> over the \<open>announces\<close> relations (lines 342 to 390), returning Go's
  pair of the table and the error.
\<close>

fun asn_loop ::
  "AssetDB \<Rightarrow> types_Asset \<Rightarrow> types_Relation list \<Rightarrow> asn_table
     \<Rightarrow> go_panic + (asn_table \<times> error option)" where
  "asn_loop db netblockAsset [] asnData = Inr (asnData, None)"
| "asn_loop db netblockAsset (rel # rels) asnData =
     (case FromAsset rel of None \<Rightarrow> Inl NilDereference | Some fa \<Rightarrow>
       (case fst (FindById db (AssetID fa) 0) of None \<Rightarrow> Inl NilDereference | Some asnAsset \<Rightarrow>
         (case assert_AutonomousSystem (Asset asnAsset) of
            None \<Rightarrow> asn_loop db netblockAsset rels asnData
          | Some number \<Rightarrow>
             (let asnInfo =
                (case (case asnData of None \<Rightarrow> None | Some m \<Rightarrow> m number) of
                   None \<Rightarrow> \<lparr>RIRName = [], CIDRs = Map.empty\<rparr>
                 | Some info \<Rightarrow> info)
              in case assert_Netblock (Asset netblockAsset) of
                   None \<Rightarrow> Inl TypeAssertion
                 | Some cidr \<Rightarrow>
                    (let asnInfo1 = asnInfo\<lparr>CIDRs := (CIDRs asnInfo)
                           (cidr \<mapsto> (case CIDRs asnInfo cidr of None \<Rightarrow> 0 | Some c \<Rightarrow> c) + 1)\<rparr>
                     in case OutgoingRelations db asnAsset 0 [''managed_by''] of
                          Inl err \<Rightarrow> Inr (None, Some err)
                        | Inr rirRelations \<Rightarrow>
                           (case rir_loop db number rirRelations asnInfo1 of
                              Inl p \<Rightarrow> Inl p
                            | Inr (Inl err) \<Rightarrow> Inr (None, Some err)
                            | Inr (Inr asnInfo2) \<Rightarrow>
                               (case asnData of
                                  None \<Rightarrow> Inl NilMapAssignment
                                | Some m \<Rightarrow>
                                   asn_loop db netblockAsset rels
                                     (Some (m(number \<mapsto> asnInfo2))))))))))"




section \<open>Example stores\<close>

text \<open>
  A network endpoint with one outgoing \<open>service\<close> relation, in a store that answers the
  relation queries for this record only.
\<close>

definition ex_endpoint :: types_Asset where
  "ex_endpoint = \<lparr>AssetID = ''7'', CreatedAt = 1, LastSeen = 2,
     Asset = Some (NetworkEndpoint ''www.example.com:443'')\<rparr>"

definition ex_service :: types_Asset where
  "ex_service = \<lparr>AssetID = ''8'', CreatedAt = 1, LastSeen = 2, Asset = Some (Service ''https'')\<rparr>"

definition ex_service_db :: AssetDB where
  "ex_service_db =
     \<lparr>FindByScope = (\<lambda>constraints since. Inr []),
      FindById = (\<lambda>ident since. (None, Some ''not found'')),
      OutgoingRelations = (\<lambda>a since labels.
         if AssetID a = ''7'' \<and> labels = [''service'']
         then Inr [\<lparr>RelType = ''service'', FromAsset = Some ex_endpoint,
                    ToAsset = Some ex_service\<rparr>]
         else Inr []),
      IncomingRelations = (\<lambda>a since labels. Inr [])\<rparr>"

text \<open>
  A small store for the traversal. Its records are the names \<open>example.com\<close>,
  \<open>www.example.com\<close>, \<open>1.2.0.192.in-addr.arpa\<close>, \<open>cdn.example.net\<close> and
  \<open>edge.example.net\<close> and the address \<open>192.0.2.1\<close>; its relations are
  \<open>example.com -node-> www.example.com\<close>, \<open>www.example.com -a_record-> 192.0.2.1\<close>,
  \<open>1.2.0.192.in-addr.arpa -ptr_record-> www.example.com\<close>,
  \<open>www.example.com -cname_record-> cdn.example.net\<close> and
  \<open>edge.example.net -cname_record-> cdn.example.net\<close>. A relation query with no label
  returns the relations of every label. The scope query returns the records of the names
  asked for.
\<close>

definition ex_fqdn :: "string \<Rightarrow> string \<Rightarrow> types_Asset" where
  "ex_fqdn ident name = \<lparr>AssetID = ident, CreatedAt = 1, LastSeen = 2, Asset = Some (FQDN name)\<rparr>"

definition ex_ip :: types_Asset where
  "ex_ip = \<lparr>AssetID = ''3'', CreatedAt = 1, LastSeen = 2,
     Asset = Some (IPAddress ''192.0.2.1'' ''IPv4'')\<rparr>"

definition ex_records :: "types_Asset list" where
  "ex_records =
     [ex_fqdn ''1'' ''example.com'', ex_fqdn ''2'' ''www.example.com'', ex_ip,
      ex_fqdn ''4'' ''1.2.0.192.in-addr.arpa'', ex_fqdn ''5'' ''cdn.example.net'',
      ex_fqdn ''6'' ''edge.example.net'']"

definition ex_rel :: "string \<Rightarrow> nat \<Rightarrow> nat \<Rightarrow> types_Relation" where
  "ex_rel label i j =
     \<lparr>RelType = label, FromAsset = Some (ex_records ! i), ToAsset = Some (ex_records ! j)\<rparr>"

definition ex_relations :: "types_Relation list" where
  "ex_relations =
     [ex_rel ''node'' 0 1, ex_rel ''a_record'' 1 2, ex_rel ''ptr_record'' 3 1,
      ex_rel ''cname_record'' 1 4, ex_rel ''cname_record'' 5 4]"

definition ex_select ::
  "(types_Relation \<Rightarrow> asset_ptr) \<Rightarrow> types_Asset \<Rightarrow> string list \<Rightarrow> types_Relation list" where
  "ex_select end a labels =
     filter (\<lambda>r. map_option AssetID (end r) = Some (AssetID a) \<and>
                 (labels = [] \<or> RelType r \<in> set labels)) ex_relations"

definition ex_viz_db :: AssetDB where
  "ex_viz_db =
     \<lparr>FindByScope = (\<lambda>constraints since.
         Inr (map Some (filter (\<lambda>r. Asset r \<in> Some ` set constraints) ex_records))),
      FindById = (\<lambda>ident since.
         case find (\<lambda>r. AssetID r = ident) ex_records of
           None \<Rightarrow> (None, Some ''not found'')
         | Some r \<Rightarrow> (Some r, None)),
      OutgoingRelations = (\<lambda>a since labels. Inr (ex_select FromAsset a labels)),
      IncomingRelations = (\<lambda>a since labels. Inr (ex_select ToAsset a labels))\<rparr>"

text \<open>
  The nodes and edges of the traversal of that store from \<open>example.com\<close>, and the state in
  which a traversal starts.
\<close>

definition ex_nodes :: "Node list" where
  "ex_nodes =
     [\<lparr>ID = 0, Type = ''FQDN'', Label = ''example.com'', Title = ''FQDN: example.com''\<rparr>,
      \<lparr>ID = 1, Type = ''FQDN'', Label = ''www.example.com'', Title = ''FQDN: www.example.com''\<rparr>,
      \<lparr>ID = 2, Type = ''IPAddress'', Label = ''192.0.2.1'', Title = ''IPAddress: 192.0.2.1''\<rparr>,
      \<lparr>ID = 3, Type = ''FQDN'', Label = ''cdn.example.net'', Title = ''FQDN: cdn.example.net''\<rparr>,
      \<lparr>ID = 4, Type = ''FQDN'', Label = ''1.2.0.192.in-addr.arpa'',
        Title = ''FQDN: 1.2.0.192.in-addr.arpa''\<rparr>]"

definition ex_edge :: "int \<Rightarrow> int \<Rightarrow> string \<Rightarrow> Edge" where
  "ex_edge i j label = \<lparr>From = i, To = j, EdgeLabel = label, EdgeTitle = label\<rparr>"

definition ex_edges :: "Edge list" where
  "ex_edges =
     [ex_edge 0 1 ''node'', ex_edge 1 2 ''a_record'', ex_edge 1 3 ''cname_record'',
      ex_edge 0 1 ''node'', ex_edge 4 1 ''ptr_record'']"

definition ex_init :: viz_state where
  "ex_init = \<lparr>idx = 0, nodes = [], edges = [], nodeToIdx = Map.empty, next_assets = []\<rparr>"

text \<open>The same store when its scope query fails.\<close>

definition ex_failing_db :: AssetDB where
  "ex_failing_db = ex_viz_db\<lparr>FindByScope := (\<lambda>constraints since. Inl ''store unavailable'')\<rparr>"









text \<open>
  The \<open>LastSeen\<close> times of the records of a scope result that hold a FQDN, in the order of
  the result.
\<close>

fun fqdn_last_seen :: "asset_ptr list \<Rightarrow> time list" where
  "fqdn_last_seen [] = []"
| "fqdn_last_seen (None # assets) = fqdn_last_seen assets"
| "fqdn_last_seen (Some ar # assets) =
     (if assert_FQDN (Asset ar) \<noteq> None then LastSeen ar # fqdn_last_seen assets
      else fqdn_last_seen assets)"

text \<open>
  A scope result for \<open>getNewNames\<close>. \<open>ex_midnight\<close> is 2024-01-05T00:00 UTC: 738889 days
  after the zero time (2023 years with 490 leap days, and 4 days). The names
  \<open>a.example.com\<close>, in two records, and \<open>b.example.com\<close> were last seen at 03:00 and at 18:00
  of that day; \<open>b.example.com\<close> was created an hour before the day began. The address was
  last seen at 20:00.
\<close>

definition ex_midnight :: time where
  "ex_midnight = 738889 * (24 * Hour)"

definition ex_track_assets :: "asset_ptr list" where
  "ex_track_assets =
     [Some \<lparr>AssetID = ''1'', CreatedAt = ex_midnight, LastSeen = ex_midnight + 3 * Hour,
            Asset = Some (FQDN ''a.example.com'')\<rparr>,
      Some \<lparr>AssetID = ''2'', CreatedAt = ex_midnight - Hour, LastSeen = ex_midnight + 18 * Hour,
            Asset = Some (FQDN ''b.example.com'')\<rparr>,
      Some \<lparr>AssetID = ''3'', CreatedAt = ex_midnight + Hour, LastSeen = ex_midnight + 3 * Hour,
            Asset = Some (FQDN ''a.example.com'')\<rparr>,
      Some \<lparr>AssetID = ''4'', CreatedAt = ex_midnight, LastSeen = ex_midnight + 20 * Hour,
            Asset = Some (IPAddress ''192.0.2.1'' ''IPv4'')\<rparr>]"

definition ex_track_db :: AssetDB where
  "ex_track_db = ex_viz_db\<lparr>FindByScope := (\<lambda>constraints since. Inr ex_track_assets)\<rparr>"

section \<open>The statements about the ASN table\<close>

text \<open>
  The RIR names that the \<open>managed_by\<close> relations of an ASN resolve to, in the order of the
  relations: those of the relations whose target \<open>FindById\<close> returns without an error and
  holds a RIR organization.
\<close>

fun rir_names :: "AssetDB \<Rightarrow> types_Relation list \<Rightarrow> string list" where
  "rir_names db [] = []"
| "rir_names db (rel # rels) =
     (case ToAsset rel of None \<Rightarrow> rir_names db rels | Some ta \<Rightarrow>
       (case FindById db (AssetID ta) 0 of
          (rirAsset, Some err) \<Rightarrow> rir_names db rels
        | (rirAsset, None) \<Rightarrow>
           (case rirAsset of None \<Rightarrow> rir_names db rels | Some ra \<Rightarrow>
             (case assert_RIROrganization (Asset ra) of
                None \<Rightarrow> rir_names db rels
              | Some name \<Rightarrow> name # rir_names db rels))))"









text \<open>
  The entry that \<open>handleASN\<close> works on for an ASN number, which is the entry of the table
  or a new one (lines 351 to 357), and the entry after the increment of a CIDR (line 360).
\<close>

definition entry_of :: "asn_table \<Rightarrow> int \<Rightarrow> ASNInfo" where
  "entry_of asnData number =
     (case (case asnData of None \<Rightarrow> None | Some m \<Rightarrow> m number) of
        None \<Rightarrow> \<lparr>RIRName = [], CIDRs = Map.empty\<rparr>
      | Some info \<Rightarrow> info)"

definition add_cidr :: "ASNInfo \<Rightarrow> string \<Rightarrow> ASNInfo" where
  "add_cidr asnInfo cidr =
     asnInfo\<lparr>CIDRs := (CIDRs asnInfo)
        (cidr \<mapsto> (case CIDRs asnInfo cidr of None \<Rightarrow> 0 | Some c \<Rightarrow> c) + 1)\<rparr>"

text \<open>
  A store for the ASN table: the address \<open>192.0.2.1\<close>, contained in the netblocks
  \<open>192.0.2.0/24\<close> and \<open>192.0.0.0/16\<close>; the first is announced by AS 64500 and the second by
  AS 64501; AS 64500 and AS 0 are each managed by \<open>ARIN\<close> and by \<open>RIPE NCC\<close>, in this
  order.
\<close>

definition ex_asn_record :: "string \<Rightarrow> oam_asset \<Rightarrow> types_Asset" where
  "ex_asn_record ident asset =
     \<lparr>AssetID = ident, CreatedAt = 1, LastSeen = 2, Asset = Some asset\<rparr>"

definition ex_asn_records :: "types_Asset list" where
  "ex_asn_records =
     [ex_asn_record ''1'' (IPAddress ''192.0.2.1'' ''IPv4''),
      ex_asn_record ''2'' (Netblock ''192.0.2.0/24'' ''IPv4''),
      ex_asn_record ''3'' (Netblock ''192.0.0.0/16'' ''IPv4''),
      ex_asn_record ''4'' (AutonomousSystem 64500 ''64500''),
      ex_asn_record ''5'' (AutonomousSystem 64501 ''64501''),
      ex_asn_record ''6'' (RIROrganization ''ARIN'' ''ARIN''),
      ex_asn_record ''7'' (RIROrganization ''RIPE NCC'' ''RIPE NCC''),
      ex_asn_record ''8'' (AutonomousSystem 0 ''0'')]"

definition ex_asn_rel :: "string \<Rightarrow> nat \<Rightarrow> nat \<Rightarrow> types_Relation" where
  "ex_asn_rel label i j =
     \<lparr>RelType = label, FromAsset = Some (ex_asn_records ! i),
      ToAsset = Some (ex_asn_records ! j)\<rparr>"

definition ex_asn_relations :: "types_Relation list" where
  "ex_asn_relations =
     [ex_asn_rel ''contains'' 1 0, ex_asn_rel ''contains'' 2 0,
      ex_asn_rel ''announces'' 3 1, ex_asn_rel ''announces'' 4 2,
      ex_asn_rel ''managed_by'' 3 5, ex_asn_rel ''managed_by'' 3 6,
      ex_asn_rel ''managed_by'' 7 5, ex_asn_rel ''managed_by'' 7 6]"

definition ex_asn_select ::
  "(types_Relation \<Rightarrow> asset_ptr) \<Rightarrow> types_Asset \<Rightarrow> string list \<Rightarrow> types_Relation list" where
  "ex_asn_select end a labels =
     filter (\<lambda>r. map_option AssetID (end r) = Some (AssetID a) \<and>
                 (labels = [] \<or> RelType r \<in> set labels)) ex_asn_relations"

definition ex_asn_db :: AssetDB where
  "ex_asn_db =
     \<lparr>FindByScope = (\<lambda>constraints since. Inr []),
      FindById = (\<lambda>ident since.
         case find (\<lambda>r. AssetID r = ident) ex_asn_records of
           None \<Rightarrow> (None, Some ''not found'')
         | Some r \<Rightarrow> (Some r, None)),
      OutgoingRelations = (\<lambda>a since labels. Inr (ex_asn_select FromAsset a labels)),
      IncomingRelations = (\<lambda>a since labels. Inr (ex_asn_select ToAsset a labels))\<rparr>"

definition ex_rir_rels :: "types_Relation list" where
  "ex_rir_rels = [ex_asn_rel ''managed_by'' 3 5, ex_asn_rel ''managed_by'' 3 6]"

definition ex_asn_info :: ASNInfo where
  "ex_asn_info = \<lparr>RIRName = [], CIDRs = Map.empty\<rparr>"

section \<open>Properties of newNode\<close>

lemma node_key_None: "node_key asset key = None \<longleftrightarrow> (\<exists>k. asset = Source k)"
  by (cases asset) simp_all

lemma node_key_check:
  "node_key asset key = Some (l, c) \<Longrightarrow>
     c \<longleftrightarrow> (\<exists>k. asset = NetworkEndpoint k \<or> asset = SocketAddress k)"
  by (cases asset) auto

text \<open>
  Claim C8. \<open>newNode\<close> returns nil exactly when the record is nil, or its asset is nil, or
  the key of the asset is empty, or the asset type is \<open>Source\<close>, or the asset is a network
  endpoint or a socket address for which the store returns no outgoing relation labelled
  \<open>service\<close> (a failing query counts as none). Every other record yields a node.
\<close>

theorem newNode_nil_iff:
  "newNode db i a since = None \<longleftrightarrow>
     a = None \<or>
     (\<exists>ar. a = Some ar \<and>
        (Asset ar = None \<or>
         (\<exists>asset. Asset ar = Some asset \<and>
            (Key asset = [] \<or> AssetType asset = ''Source'' \<or>
             ((\<exists>k. asset = NetworkEndpoint k \<or> asset = SocketAddress k) \<and>
              \<not> (\<exists>rels. OutgoingRelations db ar since [''service''] = Inr rels \<and>
                           rels \<noteq> []))))))"
proof (cases a)
  case None
  then show ?thesis by (simp add: newNode_def)
next
  case (Some ar)
  show ?thesis
  proof (cases "Asset ar")
    case None
    with Some show ?thesis by (simp add: newNode_def)
  next
    case (Some asset)
    note as = this
    show ?thesis
    proof (cases "Key asset = [] \<or> AssetType asset = ''Source''")
      case True
      with \<open>a = Some ar\<close> as show ?thesis by (auto simp: newNode_def Let_def)
    next
      case False
      then have "\<not> (\<exists>k. asset = Source k)" by auto
      then obtain l c where nk: "node_key asset (Key asset) = Some (l, c)"
        using node_key_None[of asset "Key asset"]
        by (cases "node_key asset (Key asset)") auto
      from node_key_check[OF nk]
      have c: "c \<longleftrightarrow> (\<exists>k. asset = NetworkEndpoint k \<or> asset = SocketAddress k)" .
      show ?thesis using \<open>a = Some ar\<close> as False nk c
        by (cases "OutgoingRelations db ar since [''service'']")
           (auto simp: newNode_def Let_def)
    qed
  qed
qed

text \<open>
  The endpoint with its service relation yields a node; the same endpoint under an
  identifier for which the store knows no relation does not.
\<close>

theorem newNode_nil_iff_witness:
  "newNode ex_service_db 0 (Some ex_endpoint) 0 \<noteq> None \<and>
   newNode ex_service_db 0 (Some (ex_endpoint\<lparr>AssetID := ''9''\<rparr>)) 0 = None"
  using newNode_nil_iff [of ex_service_db 0 "Some ex_endpoint" 0]
        newNode_nil_iff [of ex_service_db 0 "Some (ex_endpoint\<lparr>AssetID := ''9''\<rparr>)" 0]
  by (simp add: ex_service_db_def ex_endpoint_def ex_service_def)

section \<open>The traversal keeps its label table and its identifiers\<close>

lemma newNode_ID: "newNode db i a since = Some n \<Longrightarrow> ID n = i"
  by (auto simp: newNode_def Let_def split: option.splits if_splits prod.splits)

lemma tbl_ok_append:
  assumes "tbl_ok i ns m" "m (Label n) = None" "ID n = i"
  shows "tbl_ok (i + 1) (ns @ [n]) (m(Label n \<mapsto> i))"
proof -
  from assms(1) have len: "i = int (length ns)"
    and pos: "\<And>k. k < length ns \<Longrightarrow> ID (ns ! k) = int k \<and> m (Label (ns ! k)) = Some (int k)"
    and dist: "distinct (map Label ns)" and dm: "dom m = Label ` set ns"
    by (auto simp: tbl_ok_def)
  from assms(2) dm have fresh: "Label n \<notin> Label ` set ns" by auto
  have "\<And>k. k < length (ns @ [n]) \<Longrightarrow>
      ID ((ns @ [n]) ! k) = int k \<and> (m(Label n \<mapsto> i)) (Label ((ns @ [n]) ! k)) = Some (int k)"
  proof -
    fix k assume k: "k < length (ns @ [n])"
    show "ID ((ns @ [n]) ! k) = int k \<and> (m(Label n \<mapsto> i)) (Label ((ns @ [n]) ! k)) = Some (int k)"
    proof (cases "k < length ns")
      case True
      then have "Label (ns ! k) \<noteq> Label n" using fresh by (metis imageI nth_mem)
      with True pos[OF True] show ?thesis by (simp add: nth_append)
    next
      case False
      with k have "k = length ns" by simp
      then show ?thesis using assms(3) len by (simp add: nth_append)
    qed
  qed
  moreover have "distinct (map Label (ns @ [n]))" using dist fresh by simp
  moreover have "dom (m(Label n \<mapsto> i)) = Label ` set (ns @ [n])" using dm by auto
  moreover have "i + 1 = int (length (ns @ [n]))" using len by simp
  ultimately show ?thesis unfolding tbl_ok_def by blast
qed

lemma tbl_ok_lookup:
  assumes "tbl_ok i ns m" "m l = Some j"
  shows "0 \<le> j \<and> j < i"
proof -
  from assms have "l \<in> Label ` set ns" by (auto simp: tbl_ok_def)
  then obtain k where k: "k < length ns" "Label (ns ! k) = l" by (auto simp: in_set_conv_nth)
  with assms have "j = int k" by (auto simp: tbl_ok_def)
  with k assms(1) show ?thesis by (simp add: tbl_ok_def)
qed

lemma edges_ok_mono: "edges_ok i es \<Longrightarrow> i \<le> j \<Longrightarrow> edges_ok j es"
  by (fastforce simp: edges_ok_def)

lemma edges_ok_snoc:
  "edges_ok i es \<Longrightarrow> 0 \<le> f \<Longrightarrow> f < i \<Longrightarrow> 0 \<le> t \<Longrightarrow> t < i \<Longrightarrow>
   edges_ok i (es @ [\<lparr>From = f, To = t, EdgeLabel = l, EdgeTitle = l'\<rparr>])"
  by (auto simp: edges_ok_def)

lemma grows_refl: "grows st st"
  by (simp add: grows_def)

lemma grows_trans: "grows a b \<Longrightarrow> grows b c \<Longrightarrow> grows a c"
  unfolding grows_def by (meson map_le_trans order_trans prefix_order.order_trans)


lemma edges_ok_grow_snoc:
  "edges_ok i es \<Longrightarrow> 0 \<le> f \<Longrightarrow> f < i + 1 \<Longrightarrow> 0 \<le> t \<Longrightarrow> t < i + 1 \<Longrightarrow>
   edges_ok (i + 1) (es @ [\<lparr>From = f, To = t, EdgeLabel = l, EdgeTitle = l'\<rparr>])"
  by (auto simp: edges_ok_def)

lemma tbl_ok_nonneg: "tbl_ok i ns m \<Longrightarrow> 0 \<le> i"
  by (simp add: tbl_ok_def)

lemma out_rel_inv:
  assumes "viz_inv st" "0 \<le> f" "f < idx st" "out_rel db since f rel st = Inr st'"
  shows "viz_inv st' \<and> grows st st'"
  using assms
  unfolding out_rel_def viz_inv_def grows_def
  by (auto simp: Let_def map_le_def newNode_ID tbl_ok_append edges_ok_snoc edges_ok_grow_snoc
      tbl_ok_nonneg
      dest: tbl_ok_lookup
      split: option.splits prod.splits if_splits)

lemma in_rel_inv:
  assumes "viz_inv st" "0 \<le> t" "t < idx st" "in_rel db since t rel st = Inr st'"
  shows "viz_inv st' \<and> grows st st'"
  using assms
  unfolding in_rel_def viz_inv_def grows_def
  by (auto simp: Let_def map_le_def newNode_ID tbl_ok_append edges_ok_snoc edges_ok_grow_snoc
      tbl_ok_nonneg
      dest: tbl_ok_lookup
      split: option.splits prod.splits if_splits)

lemma out_loop_inv:
  "viz_inv st \<Longrightarrow> 0 \<le> f \<Longrightarrow> f < idx st \<Longrightarrow> out_loop db since f rels st = Inr st' \<Longrightarrow>
   viz_inv st' \<and> grows st st'"
proof (induction rels arbitrary: st)
  case Nil
  then show ?case by (simp add: grows_refl)
next
  case (Cons rel rels)
  from Cons.prems(4) obtain st1 where s1: "out_rel db since f rel st = Inr st1"
    and s2: "out_loop db since f rels st1 = Inr st'"
    by (auto split: sum.splits)
  from out_rel_inv[OF Cons.prems(1-3) s1] have i1: "viz_inv st1" and g1: "grows st st1" by auto
  from g1 Cons.prems(3) have "f < idx st1" by (simp add: grows_def)
  from Cons.IH[OF i1 Cons.prems(2) this s2] g1 show ?case by (auto intro: grows_trans)
qed

lemma in_loop_inv:
  "viz_inv st \<Longrightarrow> 0 \<le> t \<Longrightarrow> t < idx st \<Longrightarrow> in_loop db since t rels st = Inr st' \<Longrightarrow>
   viz_inv st' \<and> grows st st'"
proof (induction rels arbitrary: st)
  case Nil
  then show ?case by (simp add: grows_refl)
next
  case (Cons rel rels)
  from Cons.prems(4) obtain st1 where s1: "in_rel db since t rel st = Inr st1"
    and s2: "in_loop db since t rels st1 = Inr st'"
    by (auto split: sum.splits)
  from in_rel_inv[OF Cons.prems(1-3) s1] have i1: "viz_inv st1" and g1: "grows st st1" by auto
  from g1 Cons.prems(3) have "t < idx st1" by (simp add: grows_def)
  from Cons.IH[OF i1 Cons.prems(2) this s2] g1 show ?case by (auto intro: grows_trans)
qed

lemma follow_out_inv:
  "viz_inv st \<Longrightarrow> 0 \<le> f \<Longrightarrow> f < idx st \<Longrightarrow>
   follow_out db since ar f out outRels st = Inr st' \<Longrightarrow> viz_inv st' \<and> grows st st'"
  by (auto simp: follow_out_def grows_refl dest: out_loop_inv split: if_splits sum.splits)

lemma follow_in_inv:
  "viz_inv st \<Longrightarrow> 0 \<le> t \<Longrightarrow> t < idx st \<Longrightarrow>
   follow_in db since ar t inb inRels st = Inr st' \<Longrightarrow> viz_inv st' \<and> grows st st'"
  by (auto simp: follow_in_def grows_refl dest: in_loop_inv split: if_splits sum.splits)

lemma assign_inv:
  assumes "viz_inv st" "newNode db (idx st) a since = Some n"
    "(ident, st1) =
       (case nodeToIdx st (Label n) of
          None \<Rightarrow>
            (idx st, st\<lparr>idx := idx st + 1,
                       nodeToIdx := (nodeToIdx st)(Label n \<mapsto> idx st),
                       nodes := nodes st @ [n]\<rparr>)
        | Some nid \<Rightarrow> (nid, st))"
  shows "viz_inv st1 \<and> grows st st1 \<and> 0 \<le> ident \<and> ident < idx st1"
  using assms
  unfolding viz_inv_def grows_def
  by (auto simp: map_le_def newNode_ID tbl_ok_append tbl_ok_nonneg
      intro: edges_ok_mono dest: tbl_ok_lookup split: option.splits)

lemma visit_inv:
  assumes "viz_inv st" "visit db domains since a st = Inr st'"
  shows "viz_inv st' \<and> grows st st'"
proof (cases "newNode db (idx st) a since")
  case None
  with assms show ?thesis by (simp add: visit_def grows_refl)
next
  case (Some n)
  show ?thesis
  proof (cases a)
    case None
    with assms Some show ?thesis by (simp add: visit_def grows_refl)
  next
    case ar: (Some ar)
    show ?thesis
    proof (cases "Asset ar")
      case None
      with assms Some ar show ?thesis by (simp add: visit_def grows_refl)
    next
      case asset: (Some asset)
      obtain ident st1 where a1: "(ident, st1) =
       (case nodeToIdx st (Label n) of
          None \<Rightarrow>
            (idx st, st\<lparr>idx := idx st + 1,
                       nodeToIdx := (nodeToIdx st)(Label n \<mapsto> idx st),
                       nodes := nodes st @ [n]\<rparr>)
        | Some nid \<Rightarrow> (nid, st))" by (metis surj_pair)
      obtain inb inRels out outRels where d:
        "directions domains (Label n) (AssetType asset) = (inb, inRels, out, outRels)"
        by (metis surj_pair)
      from assign_inv[OF assms(1) Some a1]
      have i1: "viz_inv st1" and g1: "grows st st1" and id0: "0 \<le> ident" and id1: "ident < idx st1"
        by auto
      from assms(2) Some ar asset a1[symmetric] d
      obtain st2 where s2: "follow_out db since ar ident out outRels st1 = Inr st2"
        and s3: "follow_in db since ar ident inb inRels st2 = Inr st'"
        by (auto simp: visit_def split: sum.splits)
      from follow_out_inv[OF i1 id0 id1 s2] have i2: "viz_inv st2" and g2: "grows st1 st2" by auto
      from g2 id1 have "ident < idx st2" by (simp add: grows_def)
      from follow_in_inv[OF i2 id0 this s3] g1 g2 show ?thesis by (auto intro: grows_trans)
    qed
  qed
qed

lemma visit_all_inv:
  "viz_inv st \<Longrightarrow> visit_all db domains since assets st = Inr st' \<Longrightarrow>
   viz_inv st' \<and> grows st st'"
proof (induction assets arbitrary: st)
  case Nil
  then show ?case by (simp add: grows_refl)
next
  case (Cons a assets)
  from Cons.prems(2) obtain st1 where s1: "visit db domains since a st = Inr st1"
    and s2: "visit_all db domains since assets st1 = Inr st'"
    by (auto split: sum.splits)
  from visit_inv[OF Cons.prems(1) s1] have "viz_inv st1" "grows st st1" by auto
  with Cons.IH[OF _ s2] show ?case by (auto intro: grows_trans)
qed

lemma viz_loop_inv_aux:
  "viz_loop db domains since st = Some r \<Longrightarrow>
     viz_inv st \<longrightarrow> (\<forall>st'. r = Inr st' \<longrightarrow> viz_inv st' \<and> grows st st')"
proof (induction rule: viz_loop.raw_induct[rotated 1, consumes 1, case_names step])
  case (step loop db domains since st r)
  show ?case
  proof (intro impI allI)
    fix st' assume inv: "viz_inv st" and r: "r = Inr st'"
    show "viz_inv st' \<and> grows st st'"
    proof (cases "length (next_assets st) = 0")
      case True
      with step(2) r inv show ?thesis by (simp add: grows_refl)
    next
      case False
      with step(2) r obtain st1 where
        s1: "visit_all db domains since (next_assets st) (st\<lparr>next_assets := []\<rparr>) = Inr st1"
        and s2: "loop db domains since st1 = Some (Inr st')"
        by (auto split: sum.splits)
      have "viz_inv (st\<lparr>next_assets := []\<rparr>)" using inv by (simp add: viz_inv_def)
      from visit_all_inv[OF this s1] have i1: "viz_inv st1" and g1: "grows st st1"
        by (auto simp: grows_def)
      from step(1)[OF s2] i1 have "viz_inv st' \<and> grows st1 st'" by simp
      with g1 show ?thesis by (auto intro: grows_trans)
    qed
  qed
qed

lemma viz_loop_inv:
  "viz_loop db domains since st = Some (Inr st') \<Longrightarrow> viz_inv st \<Longrightarrow> viz_inv st' \<and> grows st st'"
  using viz_loop_inv_aux by blast

lemma viz_inv_init:
  "viz_inv \<lparr>idx = 0, nodes = [], edges = [], nodeToIdx = Map.empty, next_assets = nxt\<rparr>"
  by (simp add: viz_inv_def tbl_ok_def edges_ok_def)

lemma VizData_inv:
  assumes "VizData domains since g = Some (Inr (ns, es))"
  shows "\<exists>st. viz_inv st \<and> nodes st = ns \<and> edges st = es"
proof (cases "length domains = 0")
  case True
  with assms have "ns = [] \<and> es = []" by (simp add: VizData_def)
  then show ?thesis using viz_inv_init[of "[]"] by (intro exI[of _ "\<lparr>idx = 0, nodes = [], edges = [], nodeToIdx = Map.empty, next_assets = []\<rparr>"]) simp
next
  case False
  define since' where "since' = (if \<not> IsZero since then UTC since else since)"
  show ?thesis
  proof (cases "FindByScope g (map FQDN domains) since'")
    case (Inl err)
    with assms False have "ns = [] \<and> es = []" by (simp add: VizData_def Let_def since'_def)
    then show ?thesis using viz_inv_init[of "[]"] by (intro exI[of _ "\<lparr>idx = 0, nodes = [], edges = [], nodeToIdx = Map.empty, next_assets = []\<rparr>"]) simp
  next
    case (Inr nxt)
    define st0 where
      "st0 = \<lparr>idx = 0, nodes = [], edges = [], nodeToIdx = Map.empty, next_assets = nxt\<rparr>"
    from assms False Inr
    have m: "map_option (map_sum id (\<lambda>st. (nodes st, edges st))) (viz_loop g domains since' st0)
               = Some (Inr (ns, es))"
      by (simp add: VizData_def Let_def since'_def st0_def)
    then obtain r where r: "viz_loop g domains since' st0 = Some r"
      and r': "map_sum id (\<lambda>st. (nodes st, edges st)) r = Inr (ns, es)"
      by (cases "viz_loop g domains since' st0") auto
    from r' obtain st where st: "r = Inr st" and p: "nodes st = ns" "edges st = es"
      by (cases r) auto
    from r st have l: "viz_loop g domains since'
            \<lparr>idx = 0, nodes = [], edges = [], nodeToIdx = Map.empty, next_assets = nxt\<rparr> = Some (Inr st)"
      by (simp add: st0_def)
    from viz_loop_inv[OF l viz_inv_init] have "viz_inv st" by simp
    with p show ?thesis by blast
  qed
qed

text \<open>The traversal of the example store, and the visit of its first record.\<close>

lemma ex_viz_run: "VizData [''example.com''] 0 ex_viz_db = Some (Inr (ex_nodes, ex_edges))"
  by code_simp

lemma ex_visit_run:
  "(case visit ex_viz_db [''example.com''] 0 (Some (ex_records ! 0)) ex_init of
      Inl p \<Rightarrow> False
    | Inr st' \<Rightarrow> map Label (nodes st') = [''example.com'', ''www.example.com''] \<and>
        nodeToIdx st' ''example.com'' = Some 0 \<and> nodeToIdx st' ''www.example.com'' = Some 1)"
  by code_simp

text \<open>
  Claim C1. In a node list that \<open>VizData\<close> returns no label occurs twice. This is kept by
  every run of the loop body for one record (\<open>visit\<close>), from a state in which the table is
  in order (\<open>viz_inv\<close>: the table maps the label of the node at position \<open>k\<close> to \<open>k\<close>, and
  holds no other label): the table is in order afterwards, so a node was appended only for a
  label that the table did not hold; the nodes from before are a prefix of the nodes
  afterwards, so nodes stay in the order in which their indices were assigned; and every
  label in the table from before keeps its index.
\<close>

theorem VizData_labels_once:
  "(VizData domains since g = Some (Inr (ns, es)) \<longrightarrow> distinct (map Label ns)) \<and>
   (viz_inv st \<longrightarrow>
      (case visit g domains since a st of
         Inl p \<Rightarrow> True
       | Inr st' \<Rightarrow> viz_inv st' \<and> prefix (nodes st) (nodes st') \<and>
                     nodeToIdx st \<subseteq>\<^sub>m nodeToIdx st'))"
proof (intro conjI impI)
  assume "VizData domains since g = Some (Inr (ns, es))"
  from VizData_inv[OF this] show "distinct (map Label ns)"
    by (auto simp: viz_inv_def tbl_ok_def)
next
  assume inv: "viz_inv st"
  show "case visit g domains since a st of
         Inl p \<Rightarrow> True
       | Inr st' \<Rightarrow> viz_inv st' \<and> prefix (nodes st) (nodes st') \<and>
                     nodeToIdx st \<subseteq>\<^sub>m nodeToIdx st'"
  proof (cases "visit g domains since a st")
    case (Inl p)
    then show ?thesis by simp
  next
    case (Inr st')
    from visit_inv[OF inv Inr] Inr show ?thesis by (simp add: grows_def)
  qed
qed

text \<open>
  On the example store the traversal returns five nodes with five labels; the visit of
  \<open>example.com\<close> from the starting state appends \<open>example.com\<close> and \<open>www.example.com\<close>
  with the indices 0 and 1.
\<close>

theorem VizData_labels_once_witness:
  "VizData [''example.com''] 0 ex_viz_db = Some (Inr (ex_nodes, ex_edges)) \<and>
   distinct (map Label ex_nodes) \<and>
   viz_inv ex_init \<and>
   (case visit ex_viz_db [''example.com''] 0 (Some (ex_records ! 0)) ex_init of
      Inl p \<Rightarrow> False
    | Inr st' \<Rightarrow> viz_inv st' \<and> prefix (nodes ex_init) (nodes st') \<and>
        nodeToIdx ex_init \<subseteq>\<^sub>m nodeToIdx st' \<and>
        map Label (nodes st') = [''example.com'', ''www.example.com''] \<and>
        nodeToIdx st' ''example.com'' = Some 0 \<and> nodeToIdx st' ''www.example.com'' = Some 1)"
proof -
  have i: "viz_inv ex_init" unfolding ex_init_def by (rule viz_inv_init)
  from VizData_labels_once[of "[''example.com'']" 0 ex_viz_db ex_nodes ex_edges ex_init
         "Some (ex_records ! 0)"] ex_viz_run ex_visit_run i
  show ?thesis by (auto split: sum.splits)
qed

text \<open>
  Claim C10. In a node list that \<open>VizData\<close> returns the node at position \<open>i\<close> has the
  identifier \<open>i\<close>, and the two ends of every returned edge are identifiers of returned
  nodes.
\<close>

theorem VizData_ids:
  assumes "VizData domains since g = Some (Inr (ns, es))"
  shows "(\<forall>i < length ns. ID (ns ! i) = int i) \<and>
         (\<forall>e \<in> set es. (\<exists>n \<in> set ns. From e = ID n) \<and> (\<exists>n \<in> set ns. To e = ID n))"
proof -
  from VizData_inv[OF assms] obtain st where
    inv: "viz_inv st" and p: "nodes st = ns" "edges st = es" by blast
  from inv p have ids: "\<And>i. i < length ns \<Longrightarrow> ID (ns ! i) = int i"
    and len: "idx st = int (length ns)"
    and eo: "\<And>e. e \<in> set es \<Longrightarrow> 0 \<le> From e \<and> From e < idx st \<and> 0 \<le> To e \<and> To e < idx st"
    by (auto simp: viz_inv_def tbl_ok_def edges_ok_def)
  have ex: "\<exists>n \<in> set ns. j = ID n" if "0 \<le> j" "j < idx st" for j
  proof -
    from that len have "nat j < length ns" by simp
    moreover from this ids have "ID (ns ! nat j) = j" using that by simp
    ultimately show ?thesis by (metis nth_mem)
  qed
  from ids eo ex show ?thesis by blast
qed

text \<open>On the example store: the identifiers are 0 to 4 and every edge joins two of them.\<close>

theorem VizData_ids_witness:
  "VizData [''example.com''] 0 ex_viz_db = Some (Inr (ex_nodes, ex_edges)) \<and>
   map ID ex_nodes = [0, 1, 2, 3, 4] \<and>
   list_all (\<lambda>e. (\<exists>n \<in> set ex_nodes. From e = ID n) \<and> (\<exists>n \<in> set ex_nodes. To e = ID n))
     ex_edges"
  using VizData_ids[OF ex_viz_run] ex_viz_run by (simp add: ex_nodes_def list_all_iff)

section \<open>Empty scope and failing scope query\<close>

text \<open>
  Claim C9. When the list of domains is empty, or the scope query \<open>FindByScope\<close> returns an
  error, \<open>VizData\<close> returns the empty node list and the empty edge list and \<open>getNewNames\<close>
  returns the empty list of names; neither panics nor fails to return, and neither has an
  error to return.
\<close>

theorem empty_scope_or_query_error:
  assumes "domains = [] \<or> (\<exists>err. FindByScope g (map FQDN domains) since = Inl err)"
  shows "VizData domains since g = Some (Inr ([], [])) \<and> getNewNames domains since g = Inr []"
  using assms by (auto simp: VizData_def getNewNames_def Let_def UTC_def)

text \<open>The empty scope on the example store, and a scope on the store whose query fails.\<close>

theorem empty_scope_or_query_error_witness:
  "VizData [] 0 ex_viz_db = Some (Inr ([], [])) \<and> getNewNames [] 0 ex_viz_db = Inr [] \<and>
   FindByScope ex_failing_db (map FQDN [''example.com'']) 5 = Inl ''store unavailable'' \<and>
   VizData [''example.com''] 5 ex_failing_db = Some (Inr ([], [])) \<and>
   getNewNames [''example.com''] 5 ex_failing_db = Inr []"
  using empty_scope_or_query_error[of "[]" ex_viz_db 0]
        empty_scope_or_query_error[of "[''example.com'']" ex_failing_db 5]
  by (simp add: ex_failing_db_def)

section \<open>The directions followed from a name\<close>

lemma domainNameInScope_loop_iff:
  "domainNameInScope_loop n scope \<longleftrightarrow>
     (\<exists>d \<in> set scope. n = ToLower d \<or> (\<exists>sub. n = sub @ ''.'' @ ToLower d))"
  by (induction scope) (auto simp: Let_def HasSuffix_def suffix_def)

lemma newNode_FQDN:
  "Asset ar = Some (FQDN name) \<Longrightarrow> name \<noteq> [] \<Longrightarrow>
   newNode db i (Some ar) since =
     Some \<lparr>ID = i, Type = ''FQDN'', Label = name, Title = ''FQDN: '' @ name\<rparr>"
  by (simp add: newNode_def)

lemma newNode_no_incoming: "newNode (db\<lparr>IncomingRelations := f\<rparr>) i a since = newNode db i a since"
  by (simp add: newNode_def cong: option.case_cong if_cong prod.case_cong)

lemma out_rel_no_incoming:
  "out_rel (db\<lparr>IncomingRelations := f\<rparr>) since i rel st = out_rel db since i rel st"
  by (simp add: out_rel_def newNode_no_incoming cong: option.case_cong prod.case_cong)

lemma out_loop_no_incoming:
  "out_loop (db\<lparr>IncomingRelations := f\<rparr>) since i rels st = out_loop db since i rels st"
  by (induction rels arbitrary: st) (simp_all add: out_rel_no_incoming split: sum.splits)

lemma follow_out_no_incoming:
  "follow_out (db\<lparr>IncomingRelations := f\<rparr>) since ar i out outRels st =
   follow_out db since ar i out outRels st"
  by (simp add: follow_out_def out_loop_no_incoming cong: sum.case_cong if_cong)

text \<open>
  Claim C3. For a record that holds a FQDN with a non-empty name: \<open>domainNameInScope\<close> holds
  of the name exactly when the name, trimmed and in lower case, is one of the domains in
  lower case or ends with a dot and such a domain; the visit of the record follows the
  outgoing relations of every label, and then the incoming relations of every label if and
  only if \<open>domainNameInScope\<close> holds of the name; and when it does not hold, the visit does
  not depend on what the store answers for incoming relations.
\<close>

theorem visit_FQDN_scope:
  assumes "Asset ar = Some (FQDN name)" and "name \<noteq> []"
  shows
    "(domainNameInScope name domains \<longleftrightarrow>
        (\<exists>d \<in> set domains. ToLower (TrimSpace name) = ToLower d \<or>
           (\<exists>sub. ToLower (TrimSpace name) = sub @ ''.'' @ ToLower d))) \<and>
     visit db domains since (Some ar) st =
       (let (ident, st1) =
          (case nodeToIdx st name of
             None \<Rightarrow>
               (idx st, st\<lparr>idx := idx st + 1,
                          nodeToIdx := (nodeToIdx st)(name \<mapsto> idx st),
                          nodes := nodes st @
                            [\<lparr>ID = idx st, Type = ''FQDN'', Label = name,
                              Title = ''FQDN: '' @ name\<rparr>]\<rparr>)
           | Some nid \<Rightarrow> (nid, st))
        in case follow_out db since ar ident True [] st1 of
             Inl p \<Rightarrow> Inl p
           | Inr st2 \<Rightarrow>
               if domainNameInScope name domains then follow_in db since ar ident True [] st2
               else Inr st2) \<and>
     (\<not> domainNameInScope name domains \<longrightarrow>
        visit (db\<lparr>IncomingRelations := f\<rparr>) domains since (Some ar) st =
        visit db domains since (Some ar) st)"
proof (intro conjI impI)
  show "domainNameInScope name domains \<longleftrightarrow>
        (\<exists>d \<in> set domains. ToLower (TrimSpace name) = ToLower d \<or>
           (\<exists>sub. ToLower (TrimSpace name) = sub @ ''.'' @ ToLower d))"
    by (simp add: domainNameInScope_def domainNameInScope_loop_iff)
next
  show "visit db domains since (Some ar) st =
       (let (ident, st1) =
          (case nodeToIdx st name of
             None \<Rightarrow>
               (idx st, st\<lparr>idx := idx st + 1,
                          nodeToIdx := (nodeToIdx st)(name \<mapsto> idx st),
                          nodes := nodes st @
                            [\<lparr>ID = idx st, Type = ''FQDN'', Label = name,
                              Title = ''FQDN: '' @ name\<rparr>]\<rparr>)
           | Some nid \<Rightarrow> (nid, st))
        in case follow_out db since ar ident True [] st1 of
             Inl p \<Rightarrow> Inl p
           | Inr st2 \<Rightarrow>
               if domainNameInScope name domains then follow_in db since ar ident True [] st2
               else Inr st2)"
    using assms
    by (auto simp: visit_def newNode_FQDN directions_def follow_in_def Let_def
             split: option.splits sum.splits)
next
  assume "\<not> domainNameInScope name domains"
  with assms show "visit (db\<lparr>IncomingRelations := f\<rparr>) domains since (Some ar) st =
        visit db domains since (Some ar) st"
    by (auto simp: visit_def newNode_FQDN newNode_no_incoming directions_def follow_in_def
                   follow_out_no_incoming Let_def
             split: option.splits sum.splits)
qed


lemma ex_scope_run:
  "domainNameInScope ''www.example.com'' [''example.com''] \<and>
   \<not> domainNameInScope ''cdn.example.net'' [''example.com''] \<and>
   (case visit ex_viz_db [''example.com''] 0 (Some (ex_records ! 1)) ex_init of
      Inl p \<Rightarrow> False
    | Inr st' \<Rightarrow>
        map Label (nodes st') =
          [''www.example.com'', ''192.0.2.1'', ''cdn.example.net'', ''example.com'',
           ''1.2.0.192.in-addr.arpa''] \<and>
        map (\<lambda>e. (From e, To e, EdgeLabel e)) (edges st') =
          [(0, 1, ''a_record''), (0, 2, ''cname_record''), (3, 0, ''node''),
           (4, 0, ''ptr_record'')]) \<and>
   (case visit ex_viz_db [''example.com''] 0 (Some (ex_records ! 4)) ex_init of
      Inl p \<Rightarrow> False
    | Inr st' \<Rightarrow> map Label (nodes st') = [''cdn.example.net''] \<and> edges st' = [])"
  by code_simp

text \<open>
  With the scope \<open>example.com\<close>: the visit of \<open>www.example.com\<close> records the edges of its
  two incoming relations; the visit of \<open>cdn.example.net\<close> records no edge, though
  \<open>edge.example.net\<close> points to it.
\<close>

theorem visit_FQDN_scope_witness:
  "Asset (ex_records ! 1) = Some (FQDN ''www.example.com'') \<and>
   domainNameInScope ''www.example.com'' [''example.com''] \<and>
   (case visit ex_viz_db [''example.com''] 0 (Some (ex_records ! 1)) ex_init of
      Inl p \<Rightarrow> False
    | Inr st' \<Rightarrow>
        map Label (nodes st') =
          [''www.example.com'', ''192.0.2.1'', ''cdn.example.net'', ''example.com'',
           ''1.2.0.192.in-addr.arpa''] \<and>
        map (\<lambda>e. (From e, To e, EdgeLabel e)) (edges st') =
          [(0, 1, ''a_record''), (0, 2, ''cname_record''), (3, 0, ''node''),
           (4, 0, ''ptr_record'')]) \<and>
   Asset (ex_records ! 4) = Some (FQDN ''cdn.example.net'') \<and>
   \<not> domainNameInScope ''cdn.example.net'' [''example.com''] \<and>
   (case visit ex_viz_db [''example.com''] 0 (Some (ex_records ! 4)) ex_init of
      Inl p \<Rightarrow> False
    | Inr st' \<Rightarrow> map Label (nodes st') = [''cdn.example.net''] \<and> edges st' = []) \<and>
   visit (ex_viz_db\<lparr>IncomingRelations := (\<lambda>a since labels. Inl ''unused'')\<rparr>)
      [''example.com''] 0 (Some (ex_records ! 4)) ex_init =
   visit ex_viz_db [''example.com''] 0 (Some (ex_records ! 4)) ex_init"
proof -
  have a: "Asset (ex_records ! 1) = Some (FQDN ''www.example.com'')"
    "Asset (ex_records ! 4) = Some (FQDN ''cdn.example.net'')"
    by (simp_all add: ex_records_def ex_fqdn_def)
  have ne: "''cdn.example.net'' \<noteq> []" by simp
  note t = visit_FQDN_scope[OF a(2) ne, where domains = "[''example.com'']" and
         db = ex_viz_db and since = 0 and st = ex_init and
         f = "\<lambda>a since labels. Inl ''unused''"]
  from ex_scope_run
  have ns: "\<not> domainNameInScope ''cdn.example.net'' [''example.com'']" by (elim conjE)
  from t[THEN conjunct2, THEN conjunct2] ns
  have eq: "visit (ex_viz_db\<lparr>IncomingRelations := (\<lambda>a since labels. Inl ''unused'')\<rparr>)
              [''example.com''] 0 (Some (ex_records ! 4)) ex_init =
            visit ex_viz_db [''example.com''] 0 (Some (ex_records ! 4)) ex_init"
    by (rule mp)
  from ex_scope_run a eq show ?thesis by (elim conjE) (intro conjI; assumption)
qed

section \<open>The guard for ptr_record\<close>

















section \<open>The cutoff and the names of getNewNames\<close>

lemma assert_FQDN_Some: "assert_FQDN a = Some name \<longleftrightarrow> a = Some (FQDN name)"
  by (cases a rule: assert_FQDN.cases) auto

lemma latest_loop_fold:
  "None \<notin> set assets \<Longrightarrow>
   latest_loop assets l = Inr (fold max (fqdn_last_seen assets) l)"
proof (induction assets arbitrary: l)
  case Nil
  show ?case by simp
next
  case (Cons a assets)
  then obtain ar where a: "a = Some ar" by (cases a) auto
  from Cons.prems have n: "None \<notin> set assets" by simp
  show ?case
  proof (cases "assert_FQDN (Asset ar) \<noteq> None \<and> After (LastSeen ar) l")
    case True
    then have "max (LastSeen ar) l = LastSeen ar" by (simp add: After_def)
    with True a Cons.IH[OF n, of "LastSeen ar"] show ?thesis
      by simp
  next
    case False
    show ?thesis
    proof (cases "assert_FQDN (Asset ar) \<noteq> None")
      case True
      with False have "max (LastSeen ar) l = l" by (simp add: After_def)
      with True False a Cons.IH[OF n, of l] show ?thesis
        by simp
    next
      case False
      with a Cons.IH[OF n, of l] show ?thesis
        by simp
    qed
  qed
qed

lemma fold_max_Max:
  fixes l :: int
  shows "fold max xs l = Max (insert l (set xs))"
  using Max.set_eq_fold[of l xs] by simp

lemma Truncate_day:
  "Truncate t (24 * Hour) mod (24 * Hour) = 0 \<and> Truncate t (24 * Hour) \<le> t \<and>
   t < Truncate t (24 * Hour) + 24 * Hour"
proof -
  define d where "d = 24 * Hour"
  have pos: "0 < d" by (simp add: d_def Hour_def)
  have tr: "Truncate t d = t - t mod d" using pos by (simp add: Truncate_def)
  have m: "(t - t mod d) mod d = 0" by (simp add: minus_mod_self2)
  have b: "0 \<le> t mod d" "t mod d < d" using pos by simp_all
  from tr m b show ?thesis unfolding d_def[symmetric] by simp
qed

text \<open>
  Claim C6. When \<open>getNewNames\<close> is called with the zero time, a scope that is not empty,
  and a scope result without nil pointers in which some record that holds a FQDN was last
  seen at or after the zero time, the cutoff it derives is the greatest \<open>LastSeen\<close> of the
  records that hold a FQDN, truncated to a multiple of 24 hours: the start of the day of that
  time, which is less than 24 hours before it. The names are then collected with this cutoff.
\<close>

theorem getNewNames_zero_cutoff:
  assumes "domains \<noteq> []"
    and "FindByScope g (map FQDN domains) 0 = Inr assets"
    and "None \<notin> set assets"
    and "\<exists>t \<in> set (fqdn_last_seen assets). 0 \<le> t"
  shows "derive_since assets 0 = Inr (Truncate (Max (set (fqdn_last_seen assets))) (24 * Hour)) \<and>
         getNewNames domains 0 g =
           (case names_loop assets (Truncate (Max (set (fqdn_last_seen assets))) (24 * Hour))
                   stringset_New of
              Inl p \<Rightarrow> Inl p | Inr res \<Rightarrow> Inr (Slice res)) \<and>
         Truncate (Max (set (fqdn_last_seen assets))) (24 * Hour) mod (24 * Hour) = 0 \<and>
         Truncate (Max (set (fqdn_last_seen assets))) (24 * Hour)
           \<le> Max (set (fqdn_last_seen assets)) \<and>
         Max (set (fqdn_last_seen assets))
           < Truncate (Max (set (fqdn_last_seen assets))) (24 * Hour) + 24 * Hour"
proof -
  define xs where "xs = fqdn_last_seen assets"
  define c where "c = Truncate (Max (set xs)) (24 * Hour)"
  from assms(4) obtain t where t: "t \<in> set xs" "0 \<le> t" unfolding xs_def by blast
  then have ne: "set xs \<noteq> {}" by auto
  have "t \<le> Max (set xs)" using t(1) by simp
  with t(2) have "0 \<le> Max (set xs)" by linarith
  then have "Max (insert 0 (set xs)) = Max (set xs)" using ne by (simp add: max_def)
  with latest_loop_fold[OF assms(3), of 0] fold_max_Max[of xs 0]
  have l: "latest_loop assets 0 = Inr (Max (set xs))" unfolding xs_def by simp
  then have d: "derive_since assets 0 = Inr c"
    by (simp add: derive_since_def IsZero_def c_def)
  have g: "getNewNames domains 0 g =
           (case names_loop assets c stringset_New of
              Inl p \<Rightarrow> Inl p | Inr res \<Rightarrow> Inr (Slice res))"
    using assms(1,2) d by (simp add: getNewNames_def IsZero_def Let_def)
  from d g Truncate_day[of "Max (set xs)"] show ?thesis
    unfolding c_def xs_def by blast
qed

lemma ex_track_seen:
  "fqdn_last_seen ex_track_assets =
     [ex_midnight + 3 * Hour, ex_midnight + 18 * Hour, ex_midnight + 3 * Hour]"
  by (simp add: ex_track_assets_def)

lemma ex_track_max:
  "Max (set (fqdn_last_seen ex_track_assets)) = ex_midnight + 18 * Hour"
  by (simp add: ex_track_seen Hour_def)

lemma ex_track_truncate:
  "Truncate (ex_midnight + 18 * Hour) (24 * Hour) = ex_midnight"
  by (simp add: Truncate_def Hour_def ex_midnight_def)

lemma ex_track_names:
  "names_loop ex_track_assets ex_midnight stringset_New = Inr [''a.example.com'']"
  by (simp add: ex_track_assets_def stringset_New_def Has_def Insert_def Equal_def After_def
                Hour_def)

lemma ex_track_scope:
  "FindByScope ex_track_db (map FQDN [''example.com'']) since = Inr ex_track_assets"
  by (simp add: ex_track_db_def)

lemma ex_track_no_nil: "None \<notin> set ex_track_assets"
  by (simp add: ex_track_assets_def)

lemma ex_midnight_pos: "0 < ex_midnight"
  by (simp add: ex_midnight_def Hour_def)

text \<open>
  With names last seen at 03:00 and at 18:00 of 2024-01-05 the cutoff is 00:00 of that day;
  the address, last seen at 20:00, does not count.
\<close>

theorem getNewNames_zero_cutoff_witness:
  "FindByScope ex_track_db (map FQDN [''example.com'']) 0 = Inr ex_track_assets \<and>
   None \<notin> set ex_track_assets \<and>
   fqdn_last_seen ex_track_assets =
     [ex_midnight + 3 * Hour, ex_midnight + 18 * Hour, ex_midnight + 3 * Hour] \<and>
   0 \<le> ex_midnight + 3 * Hour \<and>
   Max (set (fqdn_last_seen ex_track_assets)) = ex_midnight + 18 * Hour \<and>
   derive_since ex_track_assets 0 = Inr ex_midnight \<and>
   ex_midnight = 738889 * (24 * Hour) \<and>
   getNewNames [''example.com''] 0 ex_track_db = Inr [''a.example.com'']"
proof -
  have p: "0 \<le> ex_midnight + 3 * Hour" using ex_midnight_pos by (simp add: Hour_def)
  then have e: "\<exists>t \<in> set (fqdn_last_seen ex_track_assets). 0 \<le> t"
    by (simp add: ex_track_seen)
  have ne: "[''example.com''] \<noteq> []" by simp
  from getNewNames_zero_cutoff[OF ne ex_track_scope ex_track_no_nil e]
  have "derive_since ex_track_assets 0 = Inr ex_midnight"
    and "getNewNames [''example.com''] 0 ex_track_db = Inr [''a.example.com'']"
    by (simp_all add: ex_track_max ex_track_truncate ex_track_names Slice_def)
  with ex_track_scope ex_track_no_nil ex_track_seen ex_track_max p show ?thesis
    by (simp add: ex_midnight_def)
qed

lemma names_loop_set:
  "None \<notin> set assets \<Longrightarrow> distinct res \<Longrightarrow>
   \<exists>res'. names_loop assets since res = Inr res' \<and> distinct res' \<and>
     set res' = set res \<union>
       {name. \<exists>ar. Some ar \<in> set assets \<and> Asset ar = Some (FQDN name) \<and>
                 since \<le> CreatedAt ar \<and> since \<le> LastSeen ar}"
proof (induction assets arbitrary: res)
  case Nil
  then show ?case by simp
next
  case (Cons a assets)
  then obtain ar where a: "a = Some ar" by (cases a) auto
  from Cons.prems have n: "None \<notin> set assets" by simp
  let ?S = "\<lambda>as. {name. \<exists>ar. Some ar \<in> set as \<and> Asset ar = Some (FQDN name) \<and>
                 since \<le> CreatedAt ar \<and> since \<le> LastSeen ar}"
  show ?case
  proof (cases "assert_FQDN (Asset ar)")
    case None
    then have "\<And>name. Asset ar \<noteq> Some (FQDN name)"
      using assert_FQDN_Some[of "Asset ar"] by auto
    then have s: "?S (a # assets) = ?S assets" using a by auto
    from None a have "names_loop (a # assets) since res = names_loop assets since res" by simp
    with Cons.IH[OF n Cons.prems(2)] s show ?thesis by simp
  next
    case (Some name)
    then have as: "Asset ar = Some (FQDN name)" by (simp add: assert_FQDN_Some)
    show ?thesis
    proof (cases "since \<le> CreatedAt ar \<and> since \<le> LastSeen ar")
      case False
      then have s: "?S (a # assets) = ?S assets" using a by auto
      from False Some a have "names_loop (a # assets) since res = names_loop assets since res"
        by (auto simp: Equal_def After_def)
      with Cons.IH[OF n Cons.prems(2)] s show ?thesis by simp
    next
      case q: True
      then have s: "?S (a # assets) = insert name (?S assets)" using a as by auto
      show ?thesis
      proof (cases "name \<in> set res")
        case True
        with Some a have "names_loop (a # assets) since res = names_loop assets since res"
          by (simp add: Has_def)
        with Cons.IH[OF n Cons.prems(2)] s True show ?thesis by auto
      next
        case False
        with q Some a
        have "names_loop (a # assets) since res = names_loop assets since (res @ [name])"
          by (auto simp: Has_def Insert_def Equal_def After_def)
        moreover from False Cons.prems(2) have "distinct (res @ [name])" by simp
        ultimately show ?thesis using Cons.IH[OF n, of "res @ [name]"] s by auto
      qed
    qed
  qed
qed

text \<open>
  Claim C7. When \<open>getNewNames\<close> is called with a cutoff that is not the zero time, a scope
  that is not empty, and a scope result without nil pointers, it returns a list of names
  without duplicates, and a name is in the list exactly when some record of the scope result
  holds the FQDN of that name and has both \<open>CreatedAt\<close> and \<open>LastSeen\<close> at or after the
  cutoff.
\<close>

theorem getNewNames_explicit_cutoff:
  assumes "since \<noteq> 0" and "domains \<noteq> []"
    and "FindByScope g (map FQDN domains) since = Inr assets"
    and "None \<notin> set assets"
  shows "\<exists>names. getNewNames domains since g = Inr names \<and> distinct names \<and>
           (\<forall>name. name \<in> set names \<longleftrightarrow>
              (\<exists>ar. Some ar \<in> set assets \<and> Asset ar = Some (FQDN name) \<and>
                    since \<le> CreatedAt ar \<and> since \<le> LastSeen ar))"
proof -
  from names_loop_set[OF assms(4), of "[]" since] obtain res where
    r: "names_loop assets since [] = Inr res" "distinct res"
       "set res = {name. \<exists>ar. Some ar \<in> set assets \<and> Asset ar = Some (FQDN name) \<and>
                 since \<le> CreatedAt ar \<and> since \<le> LastSeen ar}"
    by auto
  from assms(1,2,3) r(1) have "getNewNames domains since g = Inr res"
    by (simp add: getNewNames_def Let_def IsZero_def UTC_def derive_since_def
                  stringset_New_def Slice_def)
  with r(2,3) show ?thesis by auto
qed

lemma getNewNames_nonzero:
  "since \<noteq> 0 \<Longrightarrow> domains \<noteq> [] \<Longrightarrow>
   FindByScope g (map FQDN domains) since = Inr assets \<Longrightarrow>
   getNewNames domains since g =
     (case names_loop assets since stringset_New of
        Inl p \<Rightarrow> Inl p | Inr res \<Rightarrow> Inr (Slice res))"
  by (simp add: getNewNames_def Let_def IsZero_def UTC_def derive_since_def)

text \<open>
  With the cutoff 2024-01-05T00:00: \<open>a.example.com\<close>, created at the cutoff, is returned,
  once for its two records; \<open>b.example.com\<close>, created an hour before the cutoff and last
  seen after it, is not.
\<close>

theorem getNewNames_explicit_cutoff_witness:
  "ex_midnight \<noteq> 0 \<and>
   FindByScope ex_track_db (map FQDN [''example.com'']) ex_midnight = Inr ex_track_assets \<and>
   None \<notin> set ex_track_assets \<and>
   getNewNames [''example.com''] ex_midnight ex_track_db = Inr [''a.example.com''] \<and>
   (\<exists>names. getNewNames [''example.com''] ex_midnight ex_track_db = Inr names \<and>
      distinct names \<and> ''a.example.com'' \<in> set names \<and> ''b.example.com'' \<notin> set names)"
proof -
  have z: "ex_midnight \<noteq> 0" using ex_midnight_pos by simp
  have ne: "[''example.com''] \<noteq> []" by simp
  from getNewNames_nonzero[OF z ne ex_track_scope]
  have g: "getNewNames [''example.com''] ex_midnight ex_track_db = Inr [''a.example.com'']"
    by (simp only: ex_track_names Slice_def sum.case)
  from getNewNames_explicit_cutoff[OF z ne ex_track_scope ex_track_no_nil]
  obtain names where n: "getNewNames [''example.com''] ex_midnight ex_track_db = Inr names"
    and d: "distinct names"
    by blast
  from n g have "names = [''a.example.com'']" by simp
  with n d
  have "\<exists>names. getNewNames [''example.com''] ex_midnight ex_track_db = Inr names \<and>
      distinct names \<and> ''a.example.com'' \<in> set names \<and> ''b.example.com'' \<notin> set names"
    by simp
  with z ex_track_scope ex_track_no_nil g show ?thesis by blast
qed

section \<open>The RIR name of an entry\<close>

lemma rir_loop_Cons_success:
  assumes "rir_loop db number (rel # rels) asnInfo = Inr (Inr asnInfo')"
  shows "\<exists>ta ra. ToAsset rel = Some ta \<and> FindById db (AssetID ta) 0 = (Some ra, None) \<and>
           ((assert_RIROrganization (Asset ra) = None \<and>
             rir_loop db number rels asnInfo = Inr (Inr asnInfo')) \<or>
            (\<exists>name. assert_RIROrganization (Asset ra) = Some name \<and>
               (if number = 0 then asnInfo' = asnInfo\<lparr>RIRName := name\<rparr>
                else rir_loop db number rels (asnInfo\<lparr>RIRName := name\<rparr>) = Inr (Inr asnInfo'))))"
proof -
  from assms obtain ta where ta: "ToAsset rel = Some ta"
    by (cases "ToAsset rel") auto
  obtain p e where f: "FindById db (AssetID ta) 0 = (p, e)" by (cases "FindById db (AssetID ta) 0")
  from assms ta f have e: "e = None" by (cases e) auto
  from assms ta f e obtain ra where ra: "p = Some ra" by (cases p) auto
  show ?thesis
  proof (cases "assert_RIROrganization (Asset ra)")
    case None
    with assms ta f e ra show ?thesis by simp
  next
    case (Some name)
    with assms ta f e ra show ?thesis by (auto simp: Let_def split: if_splits)
  qed
qed

lemma rir_names_Cons_resolved:
  "ToAsset rel = Some ta \<Longrightarrow> FindById db (AssetID ta) 0 = (Some ra, None) \<Longrightarrow>
   rir_names db (rel # rels) =
     (case assert_RIROrganization (Asset ra) of
        None \<Rightarrow> rir_names db rels | Some name \<Rightarrow> name # rir_names db rels)"
  by simp

lemma rir_loop_result:
  "rir_loop db number rels asnInfo = Inr (Inr asnInfo') \<Longrightarrow>
   RIRName asnInfo' =
     (if rir_names db rels = [] then RIRName asnInfo
      else if number = 0 then hd (rir_names db rels) else last (rir_names db rels)) \<and>
   CIDRs asnInfo' = CIDRs asnInfo"
proof (induction rels arbitrary: asnInfo)
  case Nil
  then show ?case by simp
next
  case (Cons rel rels)
  from rir_loop_Cons_success[OF Cons.prems] obtain ta ra where
    ta: "ToAsset rel = Some ta" and f: "FindById db (AssetID ta) 0 = (Some ra, None)" and
    d: "(assert_RIROrganization (Asset ra) = None \<and>
             rir_loop db number rels asnInfo = Inr (Inr asnInfo')) \<or>
        (\<exists>name. assert_RIROrganization (Asset ra) = Some name \<and>
               (if number = 0 then asnInfo' = asnInfo\<lparr>RIRName := name\<rparr>
                else rir_loop db number rels (asnInfo\<lparr>RIRName := name\<rparr>) = Inr (Inr asnInfo')))"
    by blast
  note rn = rir_names_Cons_resolved[OF ta f, of rels]
  from d show ?case
  proof (elim disjE conjE exE)
    assume n: "assert_RIROrganization (Asset ra) = None"
      and l: "rir_loop db number rels asnInfo = Inr (Inr asnInfo')"
    from Cons.IH[OF l] rn n show ?thesis by simp
  next
    fix name
    assume s: "assert_RIROrganization (Asset ra) = Some name"
      and i: "if number = 0 then asnInfo' = asnInfo\<lparr>RIRName := name\<rparr>
                else rir_loop db number rels (asnInfo\<lparr>RIRName := name\<rparr>) = Inr (Inr asnInfo')"
    from rn s have r: "rir_names db (rel # rels) = name # rir_names db rels" by simp
    show ?thesis
    proof (cases "number = 0")
      case True
      with i r show ?thesis by simp
    next
      case False
      with i have "rir_loop db number rels (asnInfo\<lparr>RIRName := name\<rparr>) = Inr (Inr asnInfo')"
        by simp
      from Cons.IH[OF this] r False show ?thesis by simp
    qed
  qed
qed

lemma asn_loop_step:
  assumes "FromAsset rel = Some fa" and "fst (FindById db (AssetID fa) 0) = Some asnAsset"
    and "assert_AutonomousSystem (Asset asnAsset) = Some number"
    and "assert_Netblock (Asset nb) = Some cidr"
    and "OutgoingRelations db asnAsset 0 [''managed_by''] = Inr rirRels"
  shows "asn_loop db nb (rel # rels) asnData =
           (case rir_loop db number rirRels (add_cidr (entry_of asnData number) cidr) of
              Inl p \<Rightarrow> Inl p
            | Inr (Inl err) \<Rightarrow> Inr (None, Some err)
            | Inr (Inr asnInfo2) \<Rightarrow>
                (case asnData of
                   None \<Rightarrow> Inl NilMapAssignment
                 | Some m \<Rightarrow> asn_loop db nb rels (Some (m(number \<mapsto> asnInfo2)))))"
  using assms by (simp add: Let_def entry_of_def add_cidr_def)

lemma asn_loop_skip:
  assumes "FromAsset rel = Some fa" and "fst (FindById db (AssetID fa) 0) = Some asnAsset"
    and "assert_AutonomousSystem (Asset asnAsset) = None"
  shows "asn_loop db nb (rel # rels) asnData = asn_loop db nb rels asnData"
  using assms by simp

lemma asn_loop_Cons_success:
  assumes "asn_loop db nb (rel # rels) (Some m) = Inr (Some m', e)"
  shows "\<exists>fa asnAsset. FromAsset rel = Some fa \<and>
           fst (FindById db (AssetID fa) 0) = Some asnAsset \<and>
           ((assert_AutonomousSystem (Asset asnAsset) = None \<and>
             asn_loop db nb rels (Some m) = Inr (Some m', e)) \<or>
            (\<exists>number cidr rirRels asnInfo2.
               assert_AutonomousSystem (Asset asnAsset) = Some number \<and>
               assert_Netblock (Asset nb) = Some cidr \<and>
               OutgoingRelations db asnAsset 0 [''managed_by''] = Inr rirRels \<and>
               rir_loop db number rirRels (add_cidr (entry_of (Some m) number) cidr)
                 = Inr (Inr asnInfo2) \<and>
               asn_loop db nb rels (Some (m(number \<mapsto> asnInfo2))) = Inr (Some m', e)))"
proof -
  from assms obtain fa where fa: "FromAsset rel = Some fa"
    by (cases "FromAsset rel") auto
  from assms fa obtain asnAsset where a: "fst (FindById db (AssetID fa) 0) = Some asnAsset"
    by (cases "fst (FindById db (AssetID fa) 0)") auto
  show ?thesis
  proof (cases "assert_AutonomousSystem (Asset asnAsset)")
    case None
    from asn_loop_skip[OF fa a None, where nb = nb and rels = rels and asnData = "Some m"] assms fa a None
    show ?thesis by auto
  next
    case (Some number)
    from assms fa a Some obtain cidr where c: "assert_Netblock (Asset nb) = Some cidr"
      by (cases "assert_Netblock (Asset nb)") (auto simp: Let_def)
    from assms fa a Some c obtain rirRels where
      o: "OutgoingRelations db asnAsset 0 [''managed_by''] = Inr rirRels"
      by (cases "OutgoingRelations db asnAsset 0 [''managed_by'']") (auto simp: Let_def)
    note st = asn_loop_step[OF fa a Some c o, where rels = rels and asnData = "Some m"]
    from assms st obtain asnInfo2 where
      r: "rir_loop db number rirRels (add_cidr (entry_of (Some m) number) cidr)
            = Inr (Inr asnInfo2)"
      and l: "asn_loop db nb rels (Some (m(number \<mapsto> asnInfo2))) = Inr (Some m', e)"
      by (auto split: sum.splits)
    from fa a Some c o r l show ?thesis by blast
  qed
qed


lemma add_cidr_name: "RIRName (add_cidr asnInfo cidr) = RIRName asnInfo"
  by (simp add: add_cidr_def)

text \<open>
  Claim C5. When the loop of \<open>handleASN\<close> over the \<open>managed_by\<close> relations of an ASN ends
  without an error, the RIR name of the entry is the name of the last relation that resolved
  to a RIR organization, or the first one when the ASN number is 0, and is unchanged when no
  relation resolved to one; the counts of the entry are unchanged. For the ASN number 0 the
  loop ends at the first relation that resolves to a RIR organization, whatever relations
  follow. In every iteration of \<open>handleASN\<close> that returns a table, the entry written back
  for the ASN has the RIR name so determined by the \<open>managed_by\<close> relations of the ASN.
\<close>

theorem rir_name_last_wins:
  "(rir_loop db number rels asnInfo = Inr (Inr asnInfo') \<longrightarrow>
      RIRName asnInfo' =
        (if rir_names db rels = [] then RIRName asnInfo
         else if number = 0 then hd (rir_names db rels) else last (rir_names db rels)) \<and>
      CIDRs asnInfo' = CIDRs asnInfo) \<and>
   (ToAsset rel = Some ta \<and> FindById db (AssetID ta) 0 = (Some ra, None) \<and>
    assert_RIROrganization (Asset ra) = Some name \<longrightarrow>
      rir_loop db 0 (rel # rels) asnInfo = Inr (Inr (asnInfo\<lparr>RIRName := name\<rparr>))) \<and>
   (FromAsset arel = Some fa \<and> fst (FindById db (AssetID fa) 0) = Some asnAsset \<and>
    assert_AutonomousSystem (Asset asnAsset) = Some number \<and>
    OutgoingRelations db asnAsset 0 [''managed_by''] = Inr rirRels \<and>
    asn_loop db nb (arel # arels) (Some m) = Inr (Some m', e) \<longrightarrow>
      (\<exists>asnInfo2.
         RIRName asnInfo2 =
           (if rir_names db rirRels = [] then RIRName (entry_of (Some m) number)
            else if number = 0 then hd (rir_names db rirRels)
            else last (rir_names db rirRels)) \<and>
         asn_loop db nb arels (Some (m(number \<mapsto> asnInfo2))) = Inr (Some m', e)))"
proof (intro conjI impI)
  assume "rir_loop db number rels asnInfo = Inr (Inr asnInfo')"
  from rir_loop_result[OF this]
  show "RIRName asnInfo' =
        (if rir_names db rels = [] then RIRName asnInfo
         else if number = 0 then hd (rir_names db rels) else last (rir_names db rels))"
    and "CIDRs asnInfo' = CIDRs asnInfo"
    by simp_all
next
  assume "ToAsset rel = Some ta \<and> FindById db (AssetID ta) 0 = (Some ra, None) \<and>
    assert_RIROrganization (Asset ra) = Some name"
  then show "rir_loop db 0 (rel # rels) asnInfo = Inr (Inr (asnInfo\<lparr>RIRName := name\<rparr>))"
    by (simp add: Let_def)
next
  assume h: "FromAsset arel = Some fa \<and> fst (FindById db (AssetID fa) 0) = Some asnAsset \<and>
    assert_AutonomousSystem (Asset asnAsset) = Some number \<and>
    OutgoingRelations db asnAsset 0 [''managed_by''] = Inr rirRels \<and>
    asn_loop db nb (arel # arels) (Some m) = Inr (Some m', e)"
  from h have fa: "FromAsset arel = Some fa"
    and a: "fst (FindById db (AssetID fa) 0) = Some asnAsset"
    and s: "assert_AutonomousSystem (Asset asnAsset) = Some number"
    and o: "OutgoingRelations db asnAsset 0 [''managed_by''] = Inr rirRels"
    and run: "asn_loop db nb (arel # arels) (Some m) = Inr (Some m', e)"
    by blast+
  from asn_loop_Cons_success[OF run] fa a s o obtain cidr asnInfo2 where
    r: "rir_loop db number rirRels (add_cidr (entry_of (Some m) number) cidr)
          = Inr (Inr asnInfo2)" and
    l: "asn_loop db nb arels (Some (m(number \<mapsto> asnInfo2))) = Inr (Some m', e)"
    by auto
  from rir_loop_result[OF r] l
  show "\<exists>asnInfo2.
         RIRName asnInfo2 =
           (if rir_names db rirRels = [] then RIRName (entry_of (Some m) number)
            else if number = 0 then hd (rir_names db rirRels)
            else last (rir_names db rirRels)) \<and>
         asn_loop db nb arels (Some (m(number \<mapsto> asnInfo2))) = Inr (Some m', e)"
    by (intro exI[of _ asnInfo2]) (simp add: add_cidr_name)
qed



lemma ex_rir_run:
  "rir_names ex_asn_db ex_rir_rels = [''ARIN'', ''RIPE NCC''] \<and>
   rir_loop ex_asn_db 64500 ex_rir_rels ex_asn_info =
     Inr (Inr (ex_asn_info\<lparr>RIRName := ''RIPE NCC''\<rparr>)) \<and>
   rir_loop ex_asn_db 0 ex_rir_rels ex_asn_info =
     Inr (Inr (ex_asn_info\<lparr>RIRName := ''ARIN''\<rparr>))"
  by (simp add: ex_rir_rels_def ex_asn_rel_def ex_asn_records_def ex_asn_record_def
                ex_asn_db_def ex_asn_info_def)

lemma ex_asn_step_facts:
  "FromAsset (ex_asn_rel ''announces'' 3 1) = Some (ex_asn_records ! 3) \<and>
   fst (FindById ex_asn_db (AssetID (ex_asn_records ! 3)) 0) = Some (ex_asn_records ! 3) \<and>
   assert_AutonomousSystem (Asset (ex_asn_records ! 3)) = Some 64500 \<and>
   OutgoingRelations ex_asn_db (ex_asn_records ! 3) 0 [''managed_by''] = Inr ex_rir_rels"
  by code_simp

lemma ex_asn_step_run:
  "(case asn_loop ex_asn_db (ex_asn_records ! 1) [ex_asn_rel ''announces'' 3 1] (Some Map.empty) of
      Inr (Some m', None) \<Rightarrow>
        map_option RIRName (m' 64500) = Some ''RIPE NCC'' \<and>
        map_option (\<lambda>i. CIDRs i ''192.0.2.0/24'') (m' 64500) = Some (Some 1)
    | _ \<Rightarrow> False)"
  by code_simp

text \<open>
  On the example store the relations of AS 64500 resolve to \<open>ARIN\<close> and then \<open>RIPE NCC\<close>:
  the loop leaves \<open>RIPE NCC\<close> for the number 64500 and \<open>ARIN\<close> for the number 0.
\<close>

theorem rir_name_last_wins_witness:
  "rir_names ex_asn_db ex_rir_rels = [''ARIN'', ''RIPE NCC''] \<and>
   rir_loop ex_asn_db 64500 ex_rir_rels ex_asn_info =
     Inr (Inr (ex_asn_info\<lparr>RIRName := ''RIPE NCC''\<rparr>)) \<and>
   rir_loop ex_asn_db 0 ex_rir_rels ex_asn_info =
     Inr (Inr (ex_asn_info\<lparr>RIRName := ''ARIN''\<rparr>)) \<and>
   RIRName (ex_asn_info\<lparr>RIRName := ''RIPE NCC''\<rparr>) = last (rir_names ex_asn_db ex_rir_rels) \<and>
   RIRName (ex_asn_info\<lparr>RIRName := ''ARIN''\<rparr>) = hd (rir_names ex_asn_db ex_rir_rels) \<and>
   (FromAsset (ex_asn_rel ''announces'' 3 1) = Some (ex_asn_records ! 3) \<and>
    fst (FindById ex_asn_db (AssetID (ex_asn_records ! 3)) 0) = Some (ex_asn_records ! 3) \<and>
    assert_AutonomousSystem (Asset (ex_asn_records ! 3)) = Some 64500 \<and>
    OutgoingRelations ex_asn_db (ex_asn_records ! 3) 0 [''managed_by''] = Inr ex_rir_rels) \<and>
   (case asn_loop ex_asn_db (ex_asn_records ! 1) [ex_asn_rel ''announces'' 3 1] (Some Map.empty) of
      Inr (Some m', None) \<Rightarrow>
        map_option RIRName (m' 64500) = Some ''RIPE NCC'' \<and>
        map_option (\<lambda>i. CIDRs i ''192.0.2.0/24'') (m' 64500) = Some (Some 1)
    | _ \<Rightarrow> False)"
proof -
  from ex_rir_run have n: "rir_names ex_asn_db ex_rir_rels = [''ARIN'', ''RIPE NCC'']"
    and r1: "rir_loop ex_asn_db 64500 ex_rir_rels ex_asn_info =
               Inr (Inr (ex_asn_info\<lparr>RIRName := ''RIPE NCC''\<rparr>))"
    and r0: "rir_loop ex_asn_db 0 ex_rir_rels ex_asn_info =
               Inr (Inr (ex_asn_info\<lparr>RIRName := ''ARIN''\<rparr>))"
    by simp_all
  from rir_name_last_wins[where db = ex_asn_db and number = 64500 and rels = ex_rir_rels
         and asnInfo = ex_asn_info and asnInfo' = "ex_asn_info\<lparr>RIRName := ''RIPE NCC''\<rparr>",
         THEN conjunct1] r1 n
  have l: "RIRName (ex_asn_info\<lparr>RIRName := ''RIPE NCC''\<rparr>) =
             last (rir_names ex_asn_db ex_rir_rels)"
    by simp
  from rir_name_last_wins[where db = ex_asn_db and number = 0 and rels = ex_rir_rels
         and asnInfo = ex_asn_info and asnInfo' = "ex_asn_info\<lparr>RIRName := ''ARIN''\<rparr>",
         THEN conjunct1] r0 n
  have h: "RIRName (ex_asn_info\<lparr>RIRName := ''ARIN''\<rparr>) =
             hd (rir_names ex_asn_db ex_rir_rels)"
    by simp
  from n r1 r0 l h ex_asn_step_facts ex_asn_step_run show ?thesis
    by (elim conjE) (intro conjI; assumption)
qed

section \<open>The counts of the ASN table\<close>

















end
